theory Spec2Isabelle
  imports Complex_Main
begin

section \<open>Numbers and typed arrays\<close>

text \<open>
  JavaScript numbers are modelled by the reals: every finite double is a real number, and
  the value \<open>NaN\<close>, where the source can produce it, is written out as \<open>None\<close> of an
  option type, or, where a claim depends on overflow, as a value of the type \<open>num\<close> below,
  which adds \<open>Infinity\<close>, \<open>-Infinity\<close> and \<open>NaN\<close> to the reals. Rounding of
  intermediate results to doubles (and to single precision when a value is stored in a
  \<open>Float32Array\<close>) is not modelled; the theorems below that speak about concrete values
  only use values that are exact in both (small integers and zero). Where a definition is
  known to differ from the doubles for that reason, the text at the definition says how.

  A typed array is a list. Reading a typed array outside its bounds gives \<open>undefined\<close>
  in the source; \<open>rd\<close> returns 0 there. For the byte arrays of the edge states this is
  the same behaviour, since \<open>undefined\<close> fails the tests \<open>=== 2\<close> and \<open>=== 1\<close>
  exactly as 0 does; the numeric stages are only run on buffers of \<open>w * h\<close> entries, where
  no read is out of bounds. A write outside the bounds of a typed array is ignored, which is
  what \<open>xs[i := v]\<close> does.
\<close>

definition rd :: "'a::zero list \<Rightarrow> nat \<Rightarrow> 'a" where
  "rd xs i = (if i < length xs then xs ! i else 0)"

text \<open>\<open>x | 0\<close>: truncation towards zero (the operand stays far below \<open>2^31\<close> here).\<close>

definition bitor0 :: "real \<Rightarrow> int" where
  "bitor0 v = (if 0 \<le> v then \<lfloor>v\<rfloor> else \<lceil>v\<rceil>)"

text \<open>Storing an integer into a \<open>Uint8ClampedArray\<close>.\<close>

definition u8c :: "int \<Rightarrow> nat" where
  "u8c v = nat (max 0 (min 255 v))"

definition hypot :: "real \<Rightarrow> real \<Rightarrow> real" where
  "hypot x y = sqrt (x * x + y * y)"

text \<open>\<open>Math.atan2(y, x)\<close> on finite arguments (the sign of a zero is not modelled).\<close>

definition atan2 :: "real \<Rightarrow> real \<Rightarrow> real" where
  "atan2 y x =
     (if 0 < x then arctan (y / x)
      else if x < 0 \<and> 0 \<le> y then arctan (y / x) + pi
      else if x < 0 then arctan (y / x) - pi
      else if 0 < y then pi / 2
      else if y < 0 then - (pi / 2)
      else 0)"

subsection \<open>The special values of doubles\<close>

text \<open>
  A JavaScript number where overflow matters: a finite number, \<open>Infinity\<close>, \<open>-Infinity\<close>
  or \<open>NaN\<close>. An operation on finite operands is computed exactly and then overflows:
  \<open>ovf\<close> gives \<open>Infinity\<close> or \<open>-Infinity\<close> when the magnitude of the exact result
  reaches \<open>2^1024 - 2^970\<close>, the bound from which round-to-nearest returns an infinity (the
  largest double is \<open>2^1024 - 2^971\<close>). The operations on the special values are those of
  IEEE 754 and of the ECMAScript \<open>Math\<close> functions. Not modelled: the rounding of a finite
  result, underflow, and the sign of a zero (a zero divisor counts as \<open>+0\<close>).
\<close>

datatype num = Fin real | PInf | NInf | NaN

definition ovf :: "real \<Rightarrow> num" where
  "ovf v = (if \<bar>v\<bar> < 2 ^ 1024 - 2 ^ 970 then Fin v else if 0 < v then PInf else NInf)"

fun nneg :: "num \<Rightarrow> num" where
  "nneg (Fin x) = Fin (- x)"
| "nneg PInf = NInf"
| "nneg NInf = PInf"
| "nneg NaN = NaN"

fun nadd :: "num \<Rightarrow> num \<Rightarrow> num" where
  "nadd (Fin x) (Fin y) = ovf (x + y)"
| "nadd NaN v = NaN"
| "nadd u NaN = NaN"
| "nadd PInf NInf = NaN"
| "nadd NInf PInf = NaN"
| "nadd PInf v = PInf"
| "nadd u PInf = PInf"
| "nadd NInf v = NInf"
| "nadd u NInf = NInf"

fun nmul :: "num \<Rightarrow> num \<Rightarrow> num" where
  "nmul (Fin x) (Fin y) = ovf (x * y)"
| "nmul NaN v = NaN"
| "nmul u NaN = NaN"
| "nmul (Fin x) PInf = (if x = 0 then NaN else if 0 < x then PInf else NInf)"
| "nmul (Fin x) NInf = (if x = 0 then NaN else if 0 < x then NInf else PInf)"
| "nmul PInf (Fin y) = (if y = 0 then NaN else if 0 < y then PInf else NInf)"
| "nmul NInf (Fin y) = (if y = 0 then NaN else if 0 < y then NInf else PInf)"
| "nmul PInf PInf = PInf"
| "nmul NInf NInf = PInf"
| "nmul PInf NInf = NInf"
| "nmul NInf PInf = NInf"

text \<open>
  Division: a finite number divided by zero is \<open>NaN\<close> for \<open>0 / 0\<close> and an infinity
  otherwise; a finite number divided by an infinity is 0; an infinity divided by an infinity
  is \<open>NaN\<close>.
\<close>

fun ndiv :: "num \<Rightarrow> num \<Rightarrow> num" where
  "ndiv (Fin x) (Fin y) =
     (if y \<noteq> 0 then ovf (x / y) else if x = 0 then NaN else if 0 < x then PInf else NInf)"
| "ndiv NaN v = NaN"
| "ndiv u NaN = NaN"
| "ndiv (Fin x) v = Fin 0"
| "ndiv PInf (Fin y) = (if 0 \<le> y then PInf else NInf)"
| "ndiv NInf (Fin y) = (if 0 \<le> y then NInf else PInf)"
| "ndiv u v = NaN"

fun nabs :: "num \<Rightarrow> num" where
  "nabs (Fin x) = Fin \<bar>x\<bar>"
| "nabs NaN = NaN"
| "nabs u = PInf"

text \<open>The comparisons \<open><\<close> and \<open><=\<close>: false as soon as an operand is \<open>NaN\<close>.\<close>

fun nless :: "num \<Rightarrow> num \<Rightarrow> bool" where
  "nless (Fin x) (Fin y) \<longleftrightarrow> x < y"
| "nless NaN v \<longleftrightarrow> False"
| "nless u NaN \<longleftrightarrow> False"
| "nless u NInf \<longleftrightarrow> False"
| "nless PInf v \<longleftrightarrow> False"
| "nless u v \<longleftrightarrow> True"

fun nle :: "num \<Rightarrow> num \<Rightarrow> bool" where
  "nle (Fin x) (Fin y) \<longleftrightarrow> x \<le> y"
| "nle NaN v \<longleftrightarrow> False"
| "nle u NaN \<longleftrightarrow> False"
| "nle NInf v \<longleftrightarrow> True"
| "nle u PInf \<longleftrightarrow> True"
| "nle u v \<longleftrightarrow> False"

text \<open>
  The operators of the source are written with the usual symbols: \<open>u + v\<close>, \<open>u - v\<close>,
  \<open>- u\<close>, \<open>u * v\<close>, \<open>u / v\<close>, \<open>\<bar>u\<bar>\<close> (\<open>Math.abs\<close>), \<open>u < v\<close>, \<open>u \<le> v\<close>.
\<close>

instantiation num :: "{plus, minus, uminus, times, inverse, abs, ord}"
begin
definition plus_num :: "num \<Rightarrow> num \<Rightarrow> num" where "plus_num = nadd"
definition uminus_num :: "num \<Rightarrow> num" where "uminus_num = nneg"
definition minus_num :: "num \<Rightarrow> num \<Rightarrow> num" where "minus_num u v = nadd u (nneg v)"
definition times_num :: "num \<Rightarrow> num \<Rightarrow> num" where "times_num = nmul"
definition divide_num :: "num \<Rightarrow> num \<Rightarrow> num" where "divide_num = ndiv"
definition inverse_num :: "num \<Rightarrow> num" where "inverse_num u = ndiv (Fin 1) u"
definition abs_num :: "num \<Rightarrow> num" where "abs_num = nabs"
definition less_num :: "num \<Rightarrow> num \<Rightarrow> bool" where "less_num = nless"
definition less_eq_num :: "num \<Rightarrow> num \<Rightarrow> bool" where "less_eq_num = nle"
instance ..
end

text \<open>\<open>Math.sqrt\<close>, \<open>Math.pow(u, n)\<close> for a whole exponent \<open>n\<close>, \<open>Math.hypot\<close>.\<close>

fun nsqrt :: "num \<Rightarrow> num" where
  "nsqrt (Fin x) = (if x < 0 then NaN else Fin (sqrt x))"
| "nsqrt PInf = PInf"
| "nsqrt u = NaN"

fun npow :: "num \<Rightarrow> nat \<Rightarrow> num" where
  "npow (Fin x) n = ovf (x ^ n)"
| "npow PInf n = (if n = 0 then Fin 1 else PInf)"
| "npow NInf n = (if n = 0 then Fin 1 else if odd n then NInf else PInf)"
| "npow NaN n = (if n = 0 then Fin 1 else NaN)"

fun nhypot :: "num \<Rightarrow> num \<Rightarrow> num" where
  "nhypot (Fin x) (Fin y) = ovf (hypot x y)"
| "nhypot PInf v = PInf"
| "nhypot NInf v = PInf"
| "nhypot u PInf = PInf"
| "nhypot u NInf = PInf"
| "nhypot u v = NaN"

text \<open>\<open>Math.atan2(y, x)\<close>, \<open>Math.sin\<close>, \<open>Math.cos\<close>, \<open>Math.exp\<close>, \<open>Math.floor\<close>.\<close>

fun natan2 :: "num \<Rightarrow> num \<Rightarrow> num" where
  "natan2 (Fin y) (Fin x) = Fin (atan2 y x)"
| "natan2 NaN v = NaN"
| "natan2 u NaN = NaN"
| "natan2 (Fin y) PInf = Fin 0"
| "natan2 (Fin y) NInf = Fin (if 0 \<le> y then pi else - pi)"
| "natan2 PInf (Fin x) = Fin (pi / 2)"
| "natan2 NInf (Fin x) = Fin (- (pi / 2))"
| "natan2 PInf PInf = Fin (pi / 4)"
| "natan2 PInf NInf = Fin (3 * pi / 4)"
| "natan2 NInf PInf = Fin (- (pi / 4))"
| "natan2 NInf NInf = Fin (- (3 * pi / 4))"

fun nsin :: "num \<Rightarrow> num" where
  "nsin (Fin x) = Fin (sin x)"
| "nsin u = NaN"

fun ncos :: "num \<Rightarrow> num" where
  "ncos (Fin x) = Fin (cos x)"
| "ncos u = NaN"

fun nexp :: "num \<Rightarrow> num" where
  "nexp (Fin x) = ovf (exp x)"
| "nexp PInf = PInf"
| "nexp NInf = Fin 0"
| "nexp NaN = NaN"

fun nfloor :: "num \<Rightarrow> num" where
  "nfloor (Fin x) = Fin (of_int \<lfloor>x\<rfloor>)"
| "nfloor u = u"

text \<open>\<open>Math.max\<close> and \<open>Math.min\<close> of two numbers: \<open>NaN\<close> as soon as one is \<open>NaN\<close>.\<close>

definition nmax :: "num \<Rightarrow> num \<Rightarrow> num" where
  "nmax u v = (if u = NaN \<or> v = NaN then NaN else if u \<le> v then v else u)"

definition nmin :: "num \<Rightarrow> num \<Rightarrow> num" where
  "nmin u v = (if u = NaN \<or> v = NaN then NaN else if u \<le> v then u else v)"

section \<open>EdgeExtractor (edgeMap.ts)\<close>

text \<open>
  The loops \<open>for y in 1 .. h-2, for x in 1 .. w-2\<close> visit the pixels off the one-pixel
  border ring in raster order.
\<close>

definition interior :: "nat \<Rightarrow> nat \<Rightarrow> nat \<Rightarrow> nat \<Rightarrow> bool" where
  "interior w h x y \<longleftrightarrow> 1 \<le> x \<and> x + 1 < w \<and> 1 \<le> y \<and> y + 1 < h"

definition interior_px :: "nat \<Rightarrow> nat \<Rightarrow> (nat \<times> nat) list" where
  "interior_px w h = [(x, y). y \<leftarrow> [1..<h - 1], x \<leftarrow> [1..<w - 1]]"

text \<open>
  The index \<open>(y + yy) * w + (x + xx)\<close> for \<open>yy, xx\<close> in \<open>-1, 0, 1\<close>, written with
  \<open>dy = yy + 1\<close> and \<open>dx = xx + 1\<close> (only used where \<open>1 \<le> x\<close> and \<open>1 \<le> y\<close>).
\<close>

definition nbi :: "nat \<Rightarrow> nat \<Rightarrow> nat \<Rightarrow> nat \<Rightarrow> nat \<Rightarrow> nat" where
  "nbi w x y dy dx = (y + dy - 1) * w + (x + dx - 1)"

text \<open>The nine indices of the 3x3 window around \<open>(x, y)\<close>, row by row.\<close>

definition window9 :: "nat \<Rightarrow> nat \<Rightarrow> nat \<Rightarrow> nat list" where
  "window9 w x y = [nbi w x y dy dx. dy \<leftarrow> [0, 1, 2], dx \<leftarrow> [0, 1, 2]]"

text \<open>The eight neighbours: the window without its centre (\<open>if (!xx && !yy) continue\<close>).\<close>

definition window8 :: "nat \<Rightarrow> nat \<Rightarrow> nat \<Rightarrow> nat list" where
  "window8 w x y =
     [nbi w x y dy dx. dy \<leftarrow> [0, 1, 2], dx \<leftarrow> [0, 1, 2], \<not> (dy = 1 \<and> dx = 1)]"

subsection \<open>Grayscale and denoising\<close>

text \<open>
  \<open>toGrayscale\<close>, for an RGBA buffer whose length is a multiple of four. The weighted sum
  is formed exactly here. In doubles the three products and the two sums are each rounded,
  and the result can fall just below an integer that the exact sum reaches: for a white
  pixel the exact sum is 255, the doubles give a value just below it and \<open>| 0\<close> gives 254.
  The theorems below use of the grey level only that it is a function of the three colour
  bytes of its pixel and at most 255, which holds of the doubles as well.
\<close>

definition toGrayscale :: "nat list \<Rightarrow> nat list" where
  "toGrayscale img =
     map (\<lambda>j. u8c (bitor0 (0.2126 * real (rd img (4 * j)) + 0.7152 * real (rd img (4 * j + 1))
                             + 0.0722 * real (rd img (4 * j + 2)))))
       [0..<length img div 4]"

text \<open>
  The range weight of \<open>bilateral3\<close> and the filtered value of one pixel, with the exact
  exponential and exact sums. In doubles \<open>Math.exp\<close> is an approximation, and a weight as
  small as \<open>exp(-255^2 / 648)\<close> is absorbed when it is added to a sum near 1, so the
  filtered value can differ from the one here in the last step \<open>| 0\<close>. The theorems below
  evaluate the filter only on windows of equal grey levels, where every weight is
  \<open>exp(0) = 1\<close> and the sums are small whole numbers, exact in doubles; what they say
  about other images holds whatever the filtered grey levels are.
\<close>

definition range_weight :: "real \<Rightarrow> real \<Rightarrow> real" where
  "range_weight sigmaR d = exp (- (d * d) / (2 * sigmaR * sigmaR))"

text \<open>\<open>Math.min(w - 1, Math.max(0, x + xx))\<close>\<close>

definition clamp_coord :: "nat \<Rightarrow> nat \<Rightarrow> int \<Rightarrow> nat" where
  "clamp_coord w x xx = nat (min (int w - 1) (max 0 (int x + xx)))"

definition bilateral_px :: "nat list \<Rightarrow> nat \<Rightarrow> nat \<Rightarrow> real \<Rightarrow> nat \<Rightarrow> nat \<Rightarrow> nat" where
  "bilateral_px gray w h sigmaR x y =
     (let c = real (rd gray (y * w + x));
          js = [clamp_coord h y yy * w + clamp_coord w x xx. yy \<leftarrow> [-1, 0, 1], xx \<leftarrow> [-1, 0, 1]];
          ws = sum_list (map (\<lambda>j. range_weight sigmaR (real (rd gray j) - c)) js);
          acc = sum_list (map (\<lambda>j. range_weight sigmaR (real (rd gray j) - c) * real (rd gray j)) js)
      in u8c (bitor0 (acc / (if ws = 0 then 1 else ws))))"

definition bilateral3 :: "nat list \<Rightarrow> nat \<Rightarrow> nat \<Rightarrow> real \<Rightarrow> nat list" where
  "bilateral3 gray w h sigmaR =
     map (\<lambda>i. if i < w * h then bilateral_px gray w h sigmaR (i mod w) (i div w) else 0)
       [0..<length gray]"

subsection \<open>Sobel gradient and non-maximum suppression\<close>

definition gxK :: "real list" where
  "gxK = [-1, 0, 1, -2, 0, 2, -1, 0, 1]"

definition gyK :: "real list" where
  "gyK = [-1, -2, -1, 0, 0, 0, 1, 2, 1]"

definition sobel_g :: "real list \<Rightarrow> nat list \<Rightarrow> nat \<Rightarrow> nat \<Rightarrow> nat \<Rightarrow> real" where
  "sobel_g kern src w x y =
     sum_list (map2 (\<lambda>kv j. kv * real (rd src j)) kern (window9 w x y))"

definition sobel :: "nat list \<Rightarrow> nat \<Rightarrow> nat \<Rightarrow> real list \<times> real list" where
  "sobel src w h =
     (map (\<lambda>i. if interior w h (i mod w) (i div w)
                then hypot (sobel_g gxK src w (i mod w) (i div w)) (sobel_g gyK src w (i mod w) (i div w))
                else 0) [0..<w * h],
      map (\<lambda>i. if interior w h (i mod w) (i div w)
                then atan2 (sobel_g gyK src w (i mod w) (i div w)) (sobel_g gxK src w (i mod w) (i div w))
                else 0) [0..<w * h])"

definition nms_px :: "real list \<Rightarrow> real list \<Rightarrow> nat \<Rightarrow> nat \<Rightarrow> real" where
  "nms_px mag ang w i =
     (let theta = \<bar>rd ang i * 180 / pi\<bar>;
          (q, r) =
            (if theta \<le> 22.5 \<or> theta > 157.5 then (rd mag (i + 1), rd mag (i - 1))
             else if theta \<le> 67.5 then (rd mag (i + w + 1), rd mag (i - w - 1))
             else if theta \<le> 112.5 then (rd mag (i + w), rd mag (i - w))
             else (rd mag (i - w + 1), rd mag (i + w - 1)))
      in if rd mag i \<ge> q \<and> rd mag i \<ge> r then rd mag i else 0)"

definition nonMaxSuppression :: "real list \<Rightarrow> real list \<Rightarrow> nat \<Rightarrow> nat \<Rightarrow> real list" where
  "nonMaxSuppression mag ang w h =
     map (\<lambda>i. if interior w h (i mod w) (i div w) \<and> i < w * h then nms_px mag ang w i else 0)
       [0..<length mag]"

subsection \<open>Thresholds\<close>

text \<open>
  \<open>vals[Math.floor(vals.length * pct)]\<close>: \<open>undefined\<close> (here \<open>None\<close>) when the index is
  outside the array. A comparison \<open>v >= undefined\<close> is false. The product is exact
  here; in doubles it is rounded before \<open>Math.floor\<close>, and where the exact product is a
  whole number the index can be one less (\<open>150 * 0.82\<close> is \<open>122.99999999999999\<close> in
  doubles, index 122, and 123 here). The theorems below do not depend on which entry of
  \<open>vals\<close> is taken: they use only that a threshold read from \<open>vals\<close> is positive (and,
  on concrete inputs, products that are exact in doubles).
\<close>

definition at_pct :: "real list \<Rightarrow> real \<Rightarrow> real option" where
  "at_pct vals pct =
     (let k = \<lfloor>real (length vals) * pct\<rfloor>
      in if 0 \<le> k \<and> k < int (length vals) then Some (vals ! nat k) else None)"

definition percentileThresholds :: "real list \<Rightarrow> real \<Rightarrow> real \<Rightarrow> real option \<times> real option" where
  "percentileThresholds nms hiPct loPct =
     (let vals = sort (filter (\<lambda>v. v > 0) nms)
      in if vals = [] then (Some 0, Some 0) else (at_pct vals hiPct, at_pct vals loPct))"

definition ge_js :: "real \<Rightarrow> real option \<Rightarrow> bool" where
  "ge_js v t = (case t of None \<Rightarrow> False | Some u \<Rightarrow> v \<ge> u)"

subsection \<open>Hysteresis\<close>

text \<open>Edge states, as the source stores them: 0 background, 1 weak, 2 strong.\<close>

definition classify :: "real list \<Rightarrow> real option \<Rightarrow> real option \<Rightarrow> nat list" where
  "classify nms high low =
     map (\<lambda>v. if ge_js v high then 2 else if ge_js v low then 1 else 0) nms"

definition strong_nb :: "nat list \<Rightarrow> nat \<Rightarrow> nat \<Rightarrow> nat \<Rightarrow> bool" where
  "strong_nb out w x y = list_ex (\<lambda>j. rd out j = 2) (window8 w x y)"

text \<open>
  One visit of the inner loop body at pixel \<open>(x, y)\<close>; the state is the buffer, updated in
  place, and the flag \<open>changed\<close>.
\<close>

definition hyst_step :: "nat \<Rightarrow> nat \<times> nat \<Rightarrow> nat list \<times> bool \<Rightarrow> nat list \<times> bool" where
  "hyst_step w p s =
     (case p of (x, y) \<Rightarrow> case s of (out, changed) \<Rightarrow>
        if rd out (y * w + x) \<noteq> 1 then (out, changed)
        else if strong_nb out w x y then (out[y * w + x := 2], True)
        else (out, changed))"

text \<open>One full scan, started with \<open>changed = false\<close>.\<close>

definition hyst_pass :: "nat \<Rightarrow> nat \<Rightarrow> nat list \<Rightarrow> nat list \<times> bool" where
  "hyst_pass w h out = fold (hyst_step w) (interior_px w h) (out, False)"

definition weak_count :: "nat list \<Rightarrow> nat" where
  "weak_count out = length (filter (\<lambda>v. v = 1) out)"

lemma weak_count_update:
  "i < length xs \<Longrightarrow> xs ! i = 1 \<Longrightarrow> weak_count (xs[i := 2]) < weak_count xs"
  unfolding weak_count_def
proof (induction xs arbitrary: i)
  case Nil
  then show ?case by simp
next
  case (Cons v vs)
  show ?case
  proof (cases i)
    case 0
    with Cons.prems show ?thesis by simp
  next
    case (Suc j)
    with Cons.prems have "length (filter (\<lambda>v. v = 1) (vs[j := 2])) < length (filter (\<lambda>v. v = 1) vs)"
      using Cons.IH [of j] by simp
    with Suc show ?thesis by simp
  qed
qed

lemma rd_eq_nonzero: "rd xs i = Suc n \<Longrightarrow> i < length xs \<and> xs ! i = Suc n"
  by (simp add: rd_def split: if_splits)

lemma hyst_step_weak:
  assumes "hyst_step w p (out, c) = (out', c')"
  shows "weak_count out' \<le> weak_count out \<and> (c' \<and> \<not> c \<longrightarrow> weak_count out' < weak_count out)
         \<and> (c \<longrightarrow> c')"
proof (cases p)
  case (Pair x y)
  show ?thesis
  proof (cases "rd out (y * w + x) = 1 \<and> strong_nb out w x y")
    case True
    then have "y * w + x < length out" "out ! (y * w + x) = 1"
      using rd_eq_nonzero [of out "y * w + x" 0] by simp_all
    then have "weak_count (out[y * w + x := 2]) < weak_count out"
      by (rule weak_count_update)
    with assms Pair True show ?thesis by (simp add: hyst_step_def)
  next
    case False
    with assms Pair show ?thesis by (auto simp: hyst_step_def split: if_splits)
  qed
qed

lemma hyst_fold_weak:
  "fold (hyst_step w) ps (out, c) = (out', c') \<Longrightarrow>
     weak_count out' \<le> weak_count out \<and> (c' \<and> \<not> c \<longrightarrow> weak_count out' < weak_count out)
     \<and> (c \<longrightarrow> c')"
proof (induction ps arbitrary: out c)
  case Nil
  then show ?case by simp
next
  case (Cons p ps)
  obtain o1 c1 where s1: "hyst_step w p (out, c) = (o1, c1)"
    by (cases "hyst_step w p (out, c)")
  from Cons.prems s1 have "fold (hyst_step w) ps (o1, c1) = (out', c')" by simp
  from Cons.IH [OF this] hyst_step_weak [OF s1] show ?case by auto
qed

lemma hyst_pass_decreases:
  "hyst_pass w h out = (out', True) \<Longrightarrow> weak_count out' < weak_count out"
  unfolding hyst_pass_def using hyst_fold_weak [of w "interior_px w h" out False out' True]
  by simp

text \<open>
  \<open>while (changed) { changed = false; ...scan... }\<close>, entered with \<open>changed = true\<close>: scan,
  and scan again for as long as the last scan promoted a pixel. Every promoting scan lowers
  the number of weak pixels, so the loop ends.
\<close>

function hyst_loop :: "nat \<Rightarrow> nat \<Rightarrow> nat list \<Rightarrow> nat list" where
  "hyst_loop w h out =
     (case hyst_pass w h out of (out', changed) \<Rightarrow> if changed then hyst_loop w h out' else out')"
  by pat_completeness auto
termination hyst_loop
proof (relation "measure (\<lambda>(w, h, out). weak_count out)")
  show "wf (measure (\<lambda>(w, h, out). weak_count out))" by simp
next
  fix w h out x1 x2
  assume "(x1, x2) = hyst_pass w h out" and x2
  then have "hyst_pass w h out = (x1, True)" by simp
  then show "((w, h, x1), (w, h, out)) \<in> measure (\<lambda>(w, h, out). weak_count out)"
    using hyst_pass_decreases by simp
qed

definition hysteresis :: "real list \<Rightarrow> nat \<Rightarrow> nat \<Rightarrow> real option \<Rightarrow> real option \<Rightarrow> nat list" where
  "hysteresis nms w h high low = hyst_loop w h (classify nms high low)"

subsection \<open>Morphological seal, painting\<close>

definition seal_step :: "nat list \<Rightarrow> nat \<Rightarrow> nat \<times> nat \<Rightarrow> nat list \<Rightarrow> nat list" where
  "seal_step strong w p out =
     (case p of (x, y) \<Rightarrow>
        let cnt = length (filter (\<lambda>j. rd strong j = 2) (window9 w x y))
        in out[y * w + x := (if cnt \<ge> 5 then 2 else rd strong (y * w + x))])"

definition medianSeal :: "nat list \<Rightarrow> nat \<Rightarrow> nat \<Rightarrow> nat list" where
  "medianSeal strong w h = fold (seal_step strong w) (interior_px w h) strong"

text \<open>
  The painting loop of \<open>toEdgePng\<close>: the RGBA bytes written for the edge states
  (the image data has four bytes for each of them).
\<close>

definition paint :: "nat list \<Rightarrow> nat list" where
  "paint edges = concat (map (\<lambda>e. let v = (if e = 2 then 0 else 255) in [v, v, v, 255]) edges)"

definition hiPct_of :: "real \<Rightarrow> real" where
  "hiPct_of ui = max 0.82 (min 0.92 (0.82 + (ui - 30) * 0.005))"

text \<open>
  The stages of \<open>toEdgePng\<close> between \<open>getImageData\<close> and \<open>putImageData\<close>: from the RGBA
  bytes of the \<open>workW x workH\<close> working canvas to the bytes painted back. Loading, scaling
  and resampling are done by the canvas and are outside the model.
\<close>

definition edge_nms :: "nat list \<Rightarrow> nat \<Rightarrow> nat \<Rightarrow> real list" where
  "edge_nms img workW workH =
     (let gray = toGrayscale img;
          den = bilateral3 gray workW workH 18;
          (mag, ang) = sobel den workW workH
      in nonMaxSuppression mag ang workW workH)"

definition edge_states :: "nat list \<Rightarrow> nat \<Rightarrow> nat \<Rightarrow> real \<Rightarrow> nat list" where
  "edge_states img workW workH ui =
     (let nms = edge_nms img workW workH;
          hiPct = hiPct_of ui;
          loPct = hiPct * 0.55;
          (high, low) = percentileThresholds nms hiPct loPct
      in medianSeal (hysteresis nms workW workH high low) workW workH)"

definition toEdgePng_core :: "nat list \<Rightarrow> nat \<Rightarrow> nat \<Rightarrow> real \<Rightarrow> nat list" where
  "toEdgePng_core img workW workH ui = paint (edge_states img workW workH ui)"

section \<open>ColorScience\<close>

text \<open>
  A Lab colour is the triple \<open>(L, a, b)\<close> of finite numbers. A colour computed from a hex
  string that does not parse is \<open>NaN\<close> in every component (a \<open>NaN\<close> channel reaches
  each of X, Y and Z), and is \<open>None\<close> here; a distance to or from it is \<open>NaN\<close>, again
  \<open>None\<close>.
\<close>

type_synonym Lab = "real \<times> real \<times> real"

subsection \<open>Hex strings\<close>

definition hexDigit :: "char \<Rightarrow> nat option" where
  "hexDigit c =
     (let n = (of_char c :: nat)
      in if 48 \<le> n \<and> n \<le> 57 then Some (n - 48)
         else if 97 \<le> n \<and> n \<le> 102 then Some (n - 87)
         else if 65 \<le> n \<and> n \<le> 70 then Some (n - 55)
         else None)"

definition is_space :: "char \<Rightarrow> bool" where
  "is_space c \<longleftrightarrow> (of_char c :: nat) \<in> {9, 10, 11, 12, 13, 32}"

text \<open>
  \<open>parseInt(s, 16)\<close>: leading white space (the ASCII part of it), a sign, an optional
  \<open>0x\<close>, then the longest run of hex digits; \<open>NaN\<close> when that run is empty.
\<close>

definition parseInt16 :: "string \<Rightarrow> int option" where
  "parseInt16 s =
     (let s1 = dropWhile is_space s;
          sgn = (if take 1 s1 = ''-'' then - 1 else 1);
          s2 = (if take 1 s1 = ''-'' \<or> take 1 s1 = ''+'' then drop 1 s1 else s1);
          s3 = (if take 2 s2 = ''0x'' \<or> take 2 s2 = ''0X'' then drop 2 s2 else s2);
          ds = takeWhile (\<lambda>c. hexDigit c \<noteq> None) s3
      in if ds = [] then None
         else Some (sgn * int (foldl (\<lambda>acc c. 16 * acc + the (hexDigit c)) 0 ds)))"

text \<open>\<open>n.toString(16)\<close> for a non-negative integer, \<open>padStart(2, "0")\<close>, \<open>toUpperCase\<close>.\<close>

definition digit16 :: "nat \<Rightarrow> char" where
  "digit16 d = ''0123456789abcdef'' ! d"

fun toString16 :: "nat \<Rightarrow> string" where
  "toString16 n = (if n < 16 then [digit16 n] else toString16 (n div 16) @ [digit16 (n mod 16)])"

definition padStart2 :: "string \<Rightarrow> string" where
  "padStart2 s = replicate (2 - length s) CHR ''0'' @ s"

definition upper_char :: "char \<Rightarrow> char" where
  "upper_char c =
     (let n = (of_char c :: nat) in if 97 \<le> n \<and> n \<le> 122 then char_of (n - 32) else c)"

definition toUpperCase :: "string \<Rightarrow> string" where
  "toUpperCase s = map upper_char s"

text \<open>\<open>h.length === 3 ? h.split("").map(c => c + c).join("") : h\<close>\<close>

definition expand3 :: "string \<Rightarrow> string" where
  "expand3 h = (if length h = 3 then concat (map (\<lambda>c. [c, c]) h) else h)"

definition channels :: "string \<Rightarrow> int option \<times> int option \<times> int option" where
  "channels s = (parseInt16 (take 2 s), parseInt16 (take 2 (drop 2 s)), parseInt16 (take 2 (drop 4 s)))"

subsection \<open>sRGB to Lab\<close>

definition lab_f :: "real \<Rightarrow> real" where
  "lab_f t = (if t > 0.008856 then root 3 t else 7.787 * t + 16 / 116)"

text \<open>services/color.ts: channels 0..255.\<close>

definition normalizeHex :: "string \<Rightarrow> string" where
  "normalizeHex h =
     (let t = (if take 1 h = ''#'' then h else ''#'' @ h)
      in if length t = 4 then [CHR ''#'', t ! 1, t ! 1, t ! 2, t ! 2, t ! 3, t ! 3]
         else toUpperCase t)"

definition srgbToLinear :: "real \<Rightarrow> real" where
  "srgbToLinear c =
     (let cs = c / 255 in if cs \<le> 0.04045 then cs / 12.92 else ((cs + 0.055) / 1.055) powr 2.4)"

definition rgbToXyz :: "real \<times> real \<times> real \<Rightarrow> real \<times> real \<times> real" where
  "rgbToXyz c =
     (case c of (cr, cg, cb) \<Rightarrow>
        let R = srgbToLinear cr; G = srgbToLinear cg; B = srgbToLinear cb
        in (R * 0.4124564 + G * 0.3575761 + B * 0.1804375,
            R * 0.2126729 + G * 0.7151522 + B * 0.072175,
            R * 0.0193339 + G * 0.119192 + B * 0.9503041))"

definition xyzToLab :: "real \<times> real \<times> real \<Rightarrow> Lab" where
  "xyzToLab c =
     (case c of (x, y, z) \<Rightarrow>
        let fx = lab_f (x / 0.95047); fy = lab_f (y / 1.0); fz = lab_f (z / 1.08883)
        in (116 * fy - 16, 500 * (fx - fy), 200 * (fy - fz)))"

definition rgbToLab :: "real \<times> real \<times> real \<Rightarrow> Lab" where
  "rgbToLab c = xyzToLab (rgbToXyz c)"

definition hexToLab_fc :: "string \<Rightarrow> Lab option" where
  "hexToLab_fc hx =
     (case channels (drop 1 (normalizeHex hx)) of
        (Some cr, Some cg, Some cb) \<Rightarrow> Some (rgbToLab (real_of_int cr, real_of_int cg, real_of_int cb))
      | _ \<Rightarrow> None)"

definition deltaE76 :: "Lab \<Rightarrow> Lab \<Rightarrow> real" where
  "deltaE76 l1 l2 =
     (case l1 of (L1, a1, b1) \<Rightarrow> case l2 of (L2, a2, b2) \<Rightarrow>
        let dL = L1 - L2; da = a1 - a2; db = b1 - b2
        in sqrt (dL * dL + da * da + db * db))"

text \<open>utils/colorMatch.ts: channels 0..1.\<close>

definition srgbToLin :: "real \<Rightarrow> real" where
  "srgbToLin u = (if u \<le> 0.04045 then u / 12.92 else ((u + 0.055) / 1.055) powr 2.4)"

definition rgbToXyz01 :: "real \<times> real \<times> real \<Rightarrow> real \<times> real \<times> real" where
  "rgbToXyz01 c =
     (case c of (cr, cg, cb) \<Rightarrow>
        let R = srgbToLin cr; G = srgbToLin cg; B = srgbToLin cb
        in (R * 0.4124564 + G * 0.3575761 + B * 0.1804375,
            R * 0.2126729 + G * 0.7151522 + B * 0.072175,
            R * 0.0193339 + G * 0.1191920 + B * 0.9503041))"

definition hexToLab :: "string \<Rightarrow> Lab option" where
  "hexToLab hx =
     (case channels (expand3 (remove1 CHR ''#'' hx)) of
        (Some cr, Some cg, Some cb) \<Rightarrow>
          (case rgbToXyz01 (real_of_int cr / 255, real_of_int cg / 255, real_of_int cb / 255) of
             (x, y, z) \<Rightarrow>
               let fx = lab_f (x / 0.95047); fy = lab_f (y / 1); fz = lab_f (z / 1.08883)
               in Some (116 * fy - 16, 500 * (fx - fy), 200 * (fy - fz)))
      | _ \<Rightarrow> None)"

text \<open>
  \<open>deltaE\<close>, the CIEDE2000 distance of utils/colorMatch.ts, on the reals: the value that
  the source computes as long as no operation overflows.
\<close>

definition deltaE :: "Lab \<Rightarrow> Lab \<Rightarrow> real" where
  "deltaE l1 l2 =
     (case l1 of (L1, a1, b1) \<Rightarrow> case l2 of (L2, a2, b2) \<Rightarrow>
        let avgLp = (L1 + L2) / 2;
            C1 = hypot a1 b1; C2 = hypot a2 b2; avgC = (C1 + C2) / 2;
            G = 0.5 * (1 - sqrt (avgC ^ 7 / (avgC ^ 7 + 25 ^ 7)));
            a1p = (1 + G) * a1; a2p = (1 + G) * a2;
            C1p = hypot a1p b1; C2p = hypot a2p b2; avgCp = (C1p + C2p) / 2;
            h1p = atan2 b1 a1p; h2p = atan2 b2 a2p;
            H1p = (if h1p \<ge> 0 then h1p else h1p + 2 * pi);
            H2p = (if h2p \<ge> 0 then h2p else h2p + 2 * pi);
            dLp = L2 - L1; dCp = C2p - C1p;
            dhp0 = H2p - H1p;
            dhp1 = (if dhp0 > pi then dhp0 - 2 * pi else dhp0);
            dhp = (if dhp1 < - pi then dhp1 + 2 * pi else dhp1);
            dHp = 2 * sqrt (C1p * C2p) * sin (dhp / 2);
            avgHp = (if \<bar>H1p - H2p\<bar> > pi then (H1p + H2p + 2 * pi) / 2 else (H1p + H2p) / 2);
            T = 1 - 0.17 * cos (avgHp - pi / 6) + 0.24 * cos (2 * avgHp)
                  + 0.32 * cos (3 * avgHp + pi / 30) - 0.20 * cos (4 * avgHp - (63 * pi) / 180);
            Sl = 1 + (0.015 * (avgLp - 50) ^ 2) / sqrt (20 + (avgLp - 50) ^ 2);
            Sc = 1 + 0.045 * avgCp;
            Sh = 1 + 0.015 * avgCp * T;
            dt = (30 * pi) / 180 * exp (- (((avgHp * 180 / pi - 275) / 25) ^ 2));
            Rc = 2 * sqrt (avgCp ^ 7 / (avgCp ^ 7 + 25 ^ 7));
            Rt = - Rc * sin (2 * dt)
        in sqrt ((dLp / Sl) ^ 2 + (dCp / Sc) ^ 2 + (dHp / Sh) ^ 2 + Rt * (dCp / Sc) * (dHp / Sh)))"

text \<open>
  \<open>deltaE\<close> with the special values of doubles: the same lines, every operation on
  \<open>num\<close>. The arguments are Lab colours (finite numbers). Above about \<open>1e44\<close> in chroma
  \<open>Math.pow(avgC, 7)\<close> overflows to \<open>Infinity\<close>, the quotient \<open>Infinity / Infinity\<close> is
  \<open>NaN\<close> and so is the result. For colours whose components are at most \<open>10^36\<close> in
  absolute value no operation overflows and the result is the finite number that \<open>deltaE\<close>
  above gives (lemma \<open>deltaE_js_in_range\<close> below); the colours that \<open>nearestFC\<close> compares
  come from \<open>hexToLab\<close> and are in that range (lemmas \<open>hexToLab_in_lab\<close> and
  \<open>nearestFC_distance\<close> below), which is why \<open>nearestFC\<close> is written with \<open>deltaE\<close>.
\<close>

definition deltaE_js :: "Lab \<Rightarrow> Lab \<Rightarrow> num" where
  "deltaE_js l1 l2 =
     (case l1 of (L1', a1', b1') \<Rightarrow> case l2 of (L2', a2', b2') \<Rightarrow>
        let L1 = Fin L1'; a1 = Fin a1'; b1 = Fin b1'; L2 = Fin L2'; a2 = Fin a2'; b2 = Fin b2';
            avgLp = (L1 + L2) / Fin 2;
            C1 = nhypot a1 b1; C2 = nhypot a2 b2; avgC = (C1 + C2) / Fin 2;
            G = Fin 0.5 * (Fin 1 - nsqrt (npow avgC 7 / (npow avgC 7 + npow (Fin 25) 7)));
            a1p = (Fin 1 + G) * a1; a2p = (Fin 1 + G) * a2;
            C1p = nhypot a1p b1; C2p = nhypot a2p b2; avgCp = (C1p + C2p) / Fin 2;
            h1p = natan2 b1 a1p; h2p = natan2 b2 a2p;
            H1p = (if h1p \<ge> Fin 0 then h1p else h1p + Fin 2 * Fin pi);
            H2p = (if h2p \<ge> Fin 0 then h2p else h2p + Fin 2 * Fin pi);
            dLp = L2 - L1; dCp = C2p - C1p;
            dhp0 = H2p - H1p;
            dhp1 = (if dhp0 > Fin pi then dhp0 - Fin 2 * Fin pi else dhp0);
            dhp = (if dhp1 < - Fin pi then dhp1 + Fin 2 * Fin pi else dhp1);
            dHp = Fin 2 * nsqrt (C1p * C2p) * nsin (dhp / Fin 2);
            avgHp = (if \<bar>H1p - H2p\<bar> > Fin pi then (H1p + H2p + Fin 2 * Fin pi) / Fin 2
                     else (H1p + H2p) / Fin 2);
            T = Fin 1 - Fin 0.17 * ncos (avgHp - Fin pi / Fin 6) + Fin 0.24 * ncos (Fin 2 * avgHp)
                  + Fin 0.32 * ncos (Fin 3 * avgHp + Fin pi / Fin 30)
                  - Fin 0.20 * ncos (Fin 4 * avgHp - (Fin 63 * Fin pi) / Fin 180);
            Sl = Fin 1 + (Fin 0.015 * npow (avgLp - Fin 50) 2) / nsqrt (Fin 20 + npow (avgLp - Fin 50) 2);
            Sc = Fin 1 + Fin 0.045 * avgCp;
            Sh = Fin 1 + Fin 0.015 * avgCp * T;
            dt = (Fin 30 * Fin pi) / Fin 180
                   * nexp (- npow ((avgHp * Fin 180 / Fin pi - Fin 275) / Fin 25) 2);
            Rc = Fin 2 * nsqrt (npow avgCp 7 / (npow avgCp 7 + npow (Fin 25) 7));
            Rt = - Rc * nsin (Fin 2 * dt)
        in nsqrt (npow (dLp / Sl) 2 + npow (dCp / Sc) 2 + npow (dHp / Sh) 2
                    + Rt * (dCp / Sc) * (dHp / Sh)))"

section \<open>PaletteMatcher\<close>

text \<open>
  \<open>Array.prototype.sort\<close> with a comparator is a stable sort; a comparator result of
  \<open>NaN\<close> (\<open>None\<close>) counts as 0. Where the comparator is consistent every stable sort
  gives the same list, and the model is insertion sort. (With \<open>NaN\<close> distances the
  comparator is not consistent and the source's order is implementation-defined.)
\<close>

definition cmp_le :: "('a \<Rightarrow> 'a \<Rightarrow> real option) \<Rightarrow> 'a \<Rightarrow> 'a \<Rightarrow> bool" where
  "cmp_le cmp x y = (case cmp x y of None \<Rightarrow> True | Some v \<Rightarrow> v \<le> 0)"

fun js_insert :: "('a \<Rightarrow> 'a \<Rightarrow> real option) \<Rightarrow> 'a \<Rightarrow> 'a list \<Rightarrow> 'a list" where
  "js_insert cmp x [] = [x]"
| "js_insert cmp x (y # ys) = (if cmp_le cmp x y then x # y # ys else y # js_insert cmp x ys)"

definition js_sort :: "('a \<Rightarrow> 'a \<Rightarrow> real option) \<Rightarrow> 'a list \<Rightarrow> 'a list" where
  "js_sort cmp xs = foldr (js_insert cmp) xs []"

text \<open>\<open>a - b\<close> on numbers that may be \<open>NaN\<close>.\<close>

definition sub_js :: "real option \<Rightarrow> real option \<Rightarrow> real option" where
  "sub_js x y = (case (x, y) of (Some u, Some v) \<Rightarrow> Some (u - v) | _ \<Rightarrow> None)"

text \<open>\<open>xs.slice(0, k)\<close> for an integer \<open>k\<close>: a negative \<open>k\<close> counts from the end.\<close>

definition slice0 :: "'a list \<Rightarrow> int \<Rightarrow> 'a list" where
  "slice0 xs k = (if k < 0 then take (nat (int (length xs) + k)) xs else take (nat k) xs)"

record FCPencil =
  id_fc :: int
  name :: string
  hex :: string
  rgb :: "(real \<times> real \<times> real) option"
  sets :: "string list option"

text \<open>
  \<open>getFCPalette\<close>; the module constant \<open>FC_ALL\<close> is a parameter. \<open>sets\<close> holds the keys
  that the record of set sizes maps to \<open>true\<close>.
\<close>

definition getFCPalette :: "FCPencil list \<Rightarrow> string option \<Rightarrow> FCPencil list" where
  "getFCPalette FC_ALL setSize =
     (case setSize of
        None \<Rightarrow> FC_ALL
      | Some sz \<Rightarrow> filter (\<lambda>p. case sets p of Some ks \<Rightarrow> sz \<in> set ks | None \<Rightarrow> False) FC_ALL)"

definition dist_js :: "(Lab \<Rightarrow> Lab \<Rightarrow> real) \<Rightarrow> Lab option \<Rightarrow> Lab option \<Rightarrow> real option" where
  "dist_js d x y = (case (x, y) of (Some u, Some v) \<Rightarrow> Some (d u v) | _ \<Rightarrow> None)"

text \<open>\<open>p.rgb ? rgbToLab(p.rgb) : hexToLab(p.hex)\<close>\<close>

definition lab_fc :: "FCPencil \<Rightarrow> Lab option" where
  "lab_fc p = (case rgb p of Some c \<Rightarrow> Some (rgbToLab c) | None \<Rightarrow> hexToLab_fc (hex p))"

text \<open>
  \<open>matchToFaberCastell\<close> (the \<open>\<Delta>E76\<close> matcher). A match \<open>{pencil, dE}\<close> is a pair; the
  option \<open>topK\<close> is an integer or absent.
\<close>

definition matchToFaberCastell ::
  "FCPencil list \<Rightarrow> string list \<Rightarrow> string option \<Rightarrow> int option
     \<Rightarrow> (string \<times> (FCPencil \<times> real option) list) list" where
  "matchToFaberCastell FC_ALL sourceHexes setSize topK_opt =
     (let palette = getFCPalette FC_ALL setSize;
          topK = max 1 (min 5 (case topK_opt of None \<Rightarrow> 1 | Some t \<Rightarrow> t));
          palLab = map (\<lambda>p. (p, lab_fc p)) palette
      in map (\<lambda>hx.
            let srcLab = hexToLab_fc hx;
                scored = slice0 (js_sort (\<lambda>x y. sub_js (snd x) (snd y))
                            (map (\<lambda>pl. (fst pl, dist_js deltaE76 srcLab (snd pl))) palLab)) topK
            in (normalizeHex hx, scored)) sourceHexes)"

text \<open>
  \<open>nearestFC\<close> (the \<open>\<Delta>E2000\<close> matcher). A match \<open>{id, name, hex, deltaE}\<close> is the pair
  of the palette entry, which carries the first three, and the distance.
\<close>

definition nearestFC ::
  "string list \<Rightarrow> FCPencil list \<Rightarrow> int \<Rightarrow> (string \<times> (FCPencil \<times> real option) list) list" where
  "nearestFC inputHexes lib k =
     (let libLab = map (\<lambda>p. (p, hexToLab (hex p))) lib
      in map (\<lambda>hx.
            let lab = hexToLab hx;
                ranked = slice0 (js_sort (\<lambda>x y. sub_js (snd x) (snd y))
                            (map (\<lambda>pl. (fst pl, dist_js deltaE lab (snd pl))) libLab)) k
            in (hx, ranked)) inputHexes)"

section \<open>DominantColorExtractor (utils/palette.ts)\<close>

record RGB =
  r :: real
  g :: real
  b :: real

record Center = RGB +
  weight :: real

definition clamp :: "int \<Rightarrow> int \<Rightarrow> int \<Rightarrow> int" where
  "clamp n lo hi = max lo (min hi n)"

text \<open>\<open>Math.round\<close>: the nearest integer, a half rounded up.\<close>

definition js_round :: "real \<Rightarrow> int" where
  "js_round v = \<lfloor>v + 1 / 2\<rfloor>"

definition rgbToHex :: "'a RGB_scheme \<Rightarrow> string" where
  "rgbToHex c =
     ''#'' @ toUpperCase (concat (map (\<lambda>v. padStart2 (toString16 (nat (clamp (js_round v) 0 255))))
                                      [r c, g c, b c]))"

text \<open>
  \<open>hexToRgb\<close> of palette.ts; a channel that does not parse is \<open>NaN\<close> (\<open>None\<close>).
\<close>

definition hexToRgb :: "string \<Rightarrow> int option \<times> int option \<times> int option" where
  "hexToRgb hx = channels (expand3 (remove1 CHR ''#'' hx))"

text \<open>
  \<open>similarHex\<close>: true when the squared distance is above \<open>tol * tol\<close>; a \<open>NaN\<close> channel
  makes the sum \<open>NaN\<close> and the comparison false.
\<close>

definition similarHex :: "string \<Rightarrow> string \<Rightarrow> real \<Rightarrow> bool" where
  "similarHex x y tol =
     (case (hexToRgb x, hexToRgb y) of
        ((Some xr, Some xg, Some xb), (Some yr, Some yg, Some yb)) \<Rightarrow>
          (let dr = xr - yr; dg = xg - yg; db = xb - yb
           in (if real_of_int (dr * dr + dg * dg + db * db) > tol * tol then True else False))
      | _ \<Rightarrow> False)"

text \<open>\<open>arr.findIndex(P)\<close>: the first index whose element satisfies \<open>P\<close>, or \<open>-1\<close>.\<close>

fun findIndex :: "('a \<Rightarrow> bool) \<Rightarrow> 'a list \<Rightarrow> int" where
  "findIndex P [] = - 1"
| "findIndex P (x # xs) =
     (if P x then 0 else (let j = findIndex P xs in if j < 0 then - 1 else j + 1))"

text \<open>\<open>.filter((hex, idx, arr) => idx === arr.findIndex(h => similarHex(hex, h, 8)))\<close>\<close>

definition dedup :: "string list \<Rightarrow> string list" where
  "dedup arr =
     map snd (filter (\<lambda>e. int (fst e) = findIndex (\<lambda>y. similarHex (snd e) y 8) arr)
                (enumerate 0 arr))"

text \<open>
  \<open>samplePixels\<close>, for a buffer of \<open>w * h * 4\<close> bytes and \<open>step \<ge> 1\<close> (the caller passes 1).
\<close>

definition steps :: "nat \<Rightarrow> nat \<Rightarrow> nat list" where
  "steps n step = map (\<lambda>j. j * step) [0..<(n + step - 1) div step]"

definition samplePixels :: "nat list \<Rightarrow> nat \<Rightarrow> nat \<Rightarrow> nat \<Rightarrow> RGB list" where
  "samplePixels raw w h step =
     concat (map (\<lambda>p. case p of (x, y) \<Rightarrow>
                   let i = (y * w + x) * 4; a = rd raw (i + 3)
                   in if a < 8 then []
                      else [\<lparr>r = real (rd raw i), g = real (rd raw (i + 1)), b = real (rd raw (i + 2))\<rparr>])
               [(x, y). y \<leftarrow> steps h step, x \<leftarrow> steps w step])"

text \<open>The noise filter of \<open>getDominantHexes\<close>.\<close>

definition keep_sample :: "RGB \<Rightarrow> bool" where
  "keep_sample p =
     (let mx = max (r p) (max (g p) (b p)); mn = min (r p) (min (g p) (b p)); sat = mx - mn
      in \<not> (mx > 245 \<and> mn > 245) \<and> \<not> (mx < 10 \<and> mn < 10) \<and> (sat > 8 \<or> (mx > 30 \<and> mx < 230)))"

subsection \<open>k-means++\<close>

text \<open>
  \<open>Math.random()\<close> is the only effect of the clustering. The source of random numbers is
  the sequence \<open>rnd 0, rnd 1, ...\<close> of the values that the successive calls return (each
  in \<open>[0, 1)\<close>), and the state threaded through the code is the number of calls made.
\<close>

definition dist2 :: "'a RGB_scheme \<Rightarrow> 'b RGB_scheme \<Rightarrow> real" where
  "dist2 p c =
     (let dr = r p - r c; dg = g p - g c; db = b p - b c in dr * dr + dg * dg + db * db)"

definition new_center :: "RGB \<Rightarrow> Center" where
  "new_center p = \<lparr>r = r p, g = g p, b = b p, weight = 1\<rparr>"

text \<open>\<open>Math.min(...centers.map(c => dist2(p, c)))\<close>; there is always a centre.\<close>

definition min_dist2 :: "Center list \<Rightarrow> RGB \<Rightarrow> real" where
  "min_dist2 centers p = min_list (map (dist2 p) centers)"

text \<open>
  The inner \<open>for\<close> loop of the seeding: the first index at which the running remainder is
  \<open>\<le> 0\<close>, or \<open>None\<close> when the loop runs off the end without pushing a centre.
\<close>

fun pick :: "real list \<Rightarrow> real \<Rightarrow> nat \<Rightarrow> nat option" where
  "pick [] rem i = None"
| "pick (d # ds) rem i = (if rem - d \<le> 0 then Some i else pick ds (rem - d) (Suc i))"

text \<open>
  \<open>while (centers.length < k)\<close>. Nothing bounds the number of rounds: a round whose
  \<open>for\<close> loop pushes no centre leaves \<open>centers\<close> as it was. Not returning is \<open>None\<close>.
\<close>

partial_function (option) seed_loop ::
  "RGB list \<Rightarrow> int \<Rightarrow> (nat \<Rightarrow> real) \<Rightarrow> Center list \<Rightarrow> nat \<Rightarrow> (Center list \<times> nat) option" where
  "seed_loop points k rnd centers n =
     (if int (length centers) < k then
        (let dists = map (min_dist2 centers) points;
             total = (let t = sum_list dists in if t = 0 then 1 else t);
             rem = rnd n * total
         in case pick dists rem 0 of
              Some i \<Rightarrow> seed_loop points k rnd (centers @ [new_center (points ! i)]) (Suc n)
            | None \<Rightarrow> seed_loop points k rnd centers (Suc n))
      else Some (centers, n))"

text \<open>The nearest centre: the first index of the least distance (\<open>d < bd\<close>, from \<open>Infinity\<close>).\<close>

definition nearest :: "Center list \<Rightarrow> RGB \<Rightarrow> nat" where
  "nearest centers p =
     fst (fold (\<lambda>i acc. case acc of (bi, bd) \<Rightarrow>
                  let d = dist2 p (centers ! i)
                  in if (case bd of None \<Rightarrow> True | Some e \<Rightarrow> d < e) then (i, Some d) else (bi, bd))
            [0..<length centers] (0, None))"

text \<open>The array \<open>sums\<close> of one iteration; an entry \<open>{r, g, b, w}\<close> is a quadruple.\<close>

definition lloyd_sums :: "RGB list \<Rightarrow> Center list \<Rightarrow> (real \<times> real \<times> real \<times> real) list" where
  "lloyd_sums points centers =
     fold (\<lambda>p acc. let bi = nearest centers p
                    in case acc ! bi of (sr, sg, sb, sw) \<Rightarrow>
                         acc[bi := (sr + r p, sg + g p, sb + b p, sw + 1)])
       points (replicate (length centers) (0, 0, 0, 0))"

definition lloyd_update :: "Center \<Rightarrow> real \<times> real \<times> real \<times> real \<Rightarrow> Center" where
  "lloyd_update c s =
     (case s of (sr, sg, sb, sw) \<Rightarrow>
        if sw > 0 then c\<lparr>r := sr / sw, g := sg / sw, b := sb / sw, weight := sw\<rparr> else c)"

definition lloyd_iter :: "RGB list \<Rightarrow> Center list \<Rightarrow> Center list" where
  "lloyd_iter points centers = map2 lloyd_update centers (lloyd_sums points centers)"

text \<open>\<open>kmeansPP\<close>: the centres and the number of calls of \<open>Math.random()\<close> made.\<close>

definition kmeansPP :: "RGB list \<Rightarrow> int \<Rightarrow> (nat \<Rightarrow> real) \<Rightarrow> (Center list \<times> nat) option" where
  "kmeansPP points k rnd =
     (if points = [] then Some ([], 0)
      else case seed_loop points k rnd
                  [new_center (points ! nat (bitor0 (rnd 0 * real (length points))))] 1 of
             None \<Rightarrow> None
           | Some (centers, n) \<Rightarrow> Some ((lloyd_iter points ^^ 8) centers, n))"

text \<open>
  The cluster count \<open>Math.min(k, Math.max(3, Math.floor(filtered.length / 200)))\<close>, with
  the division and the \<open>Math\<close> functions on \<open>num\<close>: a division by zero would show as
  \<open>NaN\<close> or an infinity here.
\<close>

definition cluster_count :: "int \<Rightarrow> nat \<Rightarrow> num" where
  "cluster_count k len =
     nmin (Fin (real_of_int k)) (nmax (Fin 3) (nfloor (Fin (real len) / Fin 200)))"

text \<open>
  \<open>kmeansPP(points, c)\<close> for a count \<open>c\<close> that is a JavaScript number. The count is used
  only in the test \<open>centers.length < c\<close>: for a finite \<open>c\<close> that is the test against the
  least whole number not below \<open>c\<close>; for \<open>NaN\<close> and \<open>-Infinity\<close> the test is false, as it
  is for the count 0; for \<open>Infinity\<close> it is always true and the seeding never ends.
\<close>

definition kmeansPP_num :: "RGB list \<Rightarrow> num \<Rightarrow> (nat \<Rightarrow> real) \<Rightarrow> (Center list \<times> nat) option" where
  "kmeansPP_num points c rnd =
     (case c of
        Fin v \<Rightarrow> kmeansPP points \<lceil>v\<rceil> rnd
      | PInf \<Rightarrow> (if points = [] then Some ([], 0) else None)
      | _ \<Rightarrow> kmeansPP points 0 rnd)"

text \<open>
  \<open>getDominantHexes\<close>, from the pixels that \<open>readImagePixels\<close> returns (the canvas does the
  decoding and downscaling): the hexes and the number of calls of \<open>Math.random()\<close>, or
  \<open>None\<close> when the seeding never ends.
\<close>

definition getDominantHexes ::
  "nat list \<Rightarrow> nat \<Rightarrow> nat \<Rightarrow> int \<Rightarrow> (nat \<Rightarrow> real) \<Rightarrow> (string list \<times> nat) option" where
  "getDominantHexes pixels w h k rnd =
     (let samples = samplePixels pixels w h 1;
          filtered = filter keep_sample samples
      in case kmeansPP_num filtered (cluster_count k (length filtered)) rnd of
           None \<Rightarrow> None
         | Some (centers, n) \<Rightarrow>
             Some (slice0 (dedup (map rgbToHex
                     (js_sort (\<lambda>x y. Some (weight y - weight x)) centers))) (max 3 k), n))"

section \<open>Notions used in the statements\<close>

text \<open>
  \<open>only_promotes out out'\<close>: the buffers have the same length and differ only where a weak
  pixel of \<open>out\<close> has become strong in \<open>out'\<close>.
\<close>

definition only_promotes :: "nat list \<Rightarrow> nat list \<Rightarrow> bool" where
  "only_promotes out out' \<longleftrightarrow>
     length out' = length out \<and>
     list_all (\<lambda>i. out' ! i = out ! i \<or> (out ! i = 1 \<and> out' ! i = 2)) [0..<length out]"

text \<open>
  The invariant of the loop of \<open>medianSeal\<close>: strong pixels of the input are strong in the
  output buffer, and the border ring holds the input's values.
\<close>

definition seal_inv :: "nat list \<Rightarrow> nat \<Rightarrow> nat \<Rightarrow> nat list \<Rightarrow> bool" where
  "seal_inv s w h out \<longleftrightarrow>
     length out = length s \<and>
     (\<forall>i<length s. (s ! i = 2 \<longrightarrow> out ! i = 2) \<and>
        (\<not> interior w h (i mod w) (i div w) \<longrightarrow> out ! i = s ! i))"

text \<open>The grey level that \<open>toGrayscale\<close> gives a pixel.\<close>

definition luma :: "nat \<Rightarrow> nat \<Rightarrow> nat \<Rightarrow> nat" where
  "luma r0 g0 b0 = u8c (bitor0 (0.2126 * real r0 + 0.7152 * real g0 + 0.0722 * real b0))"

text \<open>
  \<open>resolve_weak\<close> turns a weak state into background; \<open>weak_beside_strong\<close> says that
  some weak pixel of a \<open>w x h\<close> buffer is 8-adjacent to a strong one.
\<close>

definition resolve_weak :: "nat \<Rightarrow> nat" where
  "resolve_weak e = (if e = 1 then 0 else e)"

definition all_px :: "nat \<Rightarrow> nat \<Rightarrow> (nat \<times> nat) list" where
  "all_px w h = [(x, y). y \<leftarrow> [0..<h], x \<leftarrow> [0..<w]]"

definition adjacent8 :: "nat \<times> nat \<Rightarrow> nat \<times> nat \<Rightarrow> bool" where
  "adjacent8 p q \<longleftrightarrow>
     p \<noteq> q \<and> fst p \<le> fst q + 1 \<and> fst q \<le> fst p + 1 \<and> snd p \<le> snd q + 1 \<and> snd q \<le> snd p + 1"

definition weak_beside_strong :: "nat list \<Rightarrow> nat \<Rightarrow> nat \<Rightarrow> bool" where
  "weak_beside_strong out w h =
     list_ex (\<lambda>p. list_ex (\<lambda>q. adjacent8 p q \<and> rd out (snd p * w + fst p) = 1
                                  \<and> rd out (snd q * w + fst q) = 2) (all_px w h)) (all_px w h)"

text \<open>
  \<open>border_zero\<close>: the buffer is 0 at every pixel that the stages leave out, the border
  ring, as the output of \<open>nonMaxSuppression\<close> is.
\<close>

definition border_zero :: "real list \<Rightarrow> nat \<Rightarrow> nat \<Rightarrow> bool" where
  "border_zero nms w h =
     list_all (\<lambda>i. interior w h (i mod w) (i div w) \<or> nms ! i = 0) [0..<length nms]"

text \<open>The index that one round of the seeding picks, if it picks one.\<close>

definition seed_pick :: "RGB list \<Rightarrow> (nat \<Rightarrow> real) \<Rightarrow> Center list \<Rightarrow> nat \<Rightarrow> nat option" where
  "seed_pick pts rnd cs n =
     (let dists = map (min_dist2 cs) pts;
          total = (let t = sum_list dists in if t = 0 then 1 else t)
      in pick dists (rnd n * total) 0)"

text \<open>
  Concrete sources of random numbers: every call returns \<open>u\<close>; or the calls return the
  values of a list and \<open>u\<close> from then on.
\<close>

definition rnd_const :: "real \<Rightarrow> nat \<Rightarrow> real" where
  "rnd_const u n = u"

definition rnd_prefix :: "real list \<Rightarrow> real \<Rightarrow> nat \<Rightarrow> real" where
  "rnd_prefix us u n = (if n < length us then us ! n else u)"

text \<open>
  The Lab colours on which \<open>deltaE\<close> does not overflow: every component at most \<open>10^36\<close>
  in absolute value.
\<close>

definition in_lab :: "Lab \<Rightarrow> bool" where
  "in_lab l \<longleftrightarrow>
     (case l of (cL, ca, cb) \<Rightarrow> \<bar>cL\<bar> \<le> 10 ^ 36 \<and> \<bar>ca\<bar> \<le> 10 ^ 36 \<and> \<bar>cb\<bar> \<le> 10 ^ 36)"

text \<open>
  Used in the proofs: the number \<open>n\<close> is the finite value \<open>v\<close>, and \<open>v\<close> is at most
  \<open>10^k\<close> in absolute value.
\<close>

definition ev :: "num \<Rightarrow> real \<Rightarrow> nat \<Rightarrow> bool" where
  "ev n v k \<longleftrightarrow> n = Fin v \<and> \<bar>v\<bar> \<le> 10 ^ k"

text \<open>The distances by which the two matchers rank a palette entry.\<close>

definition dist76 :: "Lab \<Rightarrow> FCPencil \<Rightarrow> real" where
  "dist76 srcLab p = deltaE76 srcLab (the (lab_fc p))"

definition dist2000 :: "Lab \<Rightarrow> FCPencil \<Rightarrow> real" where
  "dist2000 lab p = deltaE lab (the (hexToLab (hex p)))"

text \<open>The matches of a palette ranked by a distance: each entry with its distance.\<close>

definition ranked :: "(FCPencil \<Rightarrow> real) \<Rightarrow> FCPencil list \<Rightarrow> (FCPencil \<times> real option) list" where
  "ranked d ps = map (\<lambda>p. (p, Some (d p))) (sort_key d ps)"

text \<open>Two palette entries used as concrete inputs.\<close>

definition fc_black :: FCPencil where
  "fc_black = \<lparr>id_fc = 199, name = ''Black'', hex = ''#000000'', rgb = None, sets = None\<rparr>"

definition fc_white :: FCPencil where
  "fc_white = \<lparr>id_fc = 101, name = ''White'', hex = ''#FFFFFF'', rgb = None, sets = None\<rparr>"

section \<open>Properties of the edge extractor\<close>

subsection \<open>Hysteresis only promotes weak pixels\<close>

lemma only_promotes_iff:
  "only_promotes out out' \<longleftrightarrow>
     length out' = length out \<and> (\<forall>i<length out. out' ! i = out ! i \<or> (out ! i = 1 \<and> out' ! i = 2))"
  by (auto simp: only_promotes_def list_all_iff)

lemma only_promotes_refl: "only_promotes out out"
  by (simp add: only_promotes_iff)

lemma only_promotes_trans:
  "only_promotes xs ys \<Longrightarrow> only_promotes ys zs \<Longrightarrow> only_promotes xs zs"
  unfolding only_promotes_iff by fastforce

lemma hyst_step_promotes:
  assumes "hyst_step w p (out, c) = (out', c')"
  shows "only_promotes out out'"
proof (cases p)
  case (Pair x y)
  show ?thesis
  proof (cases "rd out (y * w + x) = 1 \<and> strong_nb out w x y")
    case True
    then have "y * w + x < length out" "out ! (y * w + x) = 1"
      using rd_eq_nonzero [of out "y * w + x" 0] by simp_all
    moreover from assms Pair True have "out' = out[y * w + x := 2]"
      by (simp add: hyst_step_def)
    ultimately show ?thesis
      by (auto simp: only_promotes_iff nth_list_update)
  next
    case False
    with assms Pair have "out' = out" by (auto simp: hyst_step_def split: if_splits)
    then show ?thesis by (simp add: only_promotes_refl)
  qed
qed

lemma hyst_fold_promotes:
  "fold (hyst_step w) ps (out, c) = (out', c') \<Longrightarrow> only_promotes out out'"
proof (induction ps arbitrary: out c)
  case Nil
  then show ?case by (simp add: only_promotes_refl)
next
  case (Cons p ps)
  obtain o1 c1 where s1: "hyst_step w p (out, c) = (o1, c1)"
    by (cases "hyst_step w p (out, c)")
  from Cons.prems s1 have "fold (hyst_step w) ps (o1, c1) = (out', c')" by simp
  from Cons.IH [OF this] hyst_step_promotes [OF s1] show ?case
    by (rule only_promotes_trans [rotated])
qed

lemma hyst_loop_promotes: "only_promotes out (hyst_loop w h out)"
proof (induction w h out rule: hyst_loop.induct)
  case (1 w h out)
  obtain o1 c1 where p: "hyst_pass w h out = (o1, c1)" by (cases "hyst_pass w h out")
  then have a: "only_promotes out o1"
    unfolding hyst_pass_def by (rule hyst_fold_promotes)
  show ?case
  proof (cases c1)
    case True
    with 1 p have "only_promotes o1 (hyst_loop w h o1)" by simp
    with a have "only_promotes out (hyst_loop w h o1)" by (rule only_promotes_trans)
    with p True show ?thesis by simp
  next
    case False
    with p a show ?thesis by simp
  qed
qed

lemma fold_invariant:
  "P s0 \<Longrightarrow> (\<And>p s. p \<in> set ps \<Longrightarrow> P s \<Longrightarrow> P (f p s)) \<Longrightarrow> P (fold f ps s0)"
  by (induction ps arbitrary: s0) simp_all

lemma interior_px_iff: "(x, y) \<in> set (interior_px w h) \<longleftrightarrow> interior w h x y"
  by (force simp: interior_px_def interior_def)

lemma interior_index:
  assumes "interior w h x y"
  shows "(y * w + x) mod w = x" and "(y * w + x) div w = y"
  using assms by (simp_all add: interior_def)

lemma seal_step_inv:
  assumes "p \<in> set (interior_px w h)" and "seal_inv s w h out"
  shows "seal_inv s w h (seal_step s w p out)"
proof (cases p)
  case (Pair x y)
  with assms(1) have int: "interior w h x y" by (simp add: interior_px_iff)
  define k where "k = y * w + x"
  define v where "v = (if length (filter (\<lambda>j. rd s j = 2) (window9 w x y)) \<ge> 5 then 2 else rd s k)"
  have step: "seal_step s w p out = out[k := v]"
    by (simp add: seal_step_def Pair k_def v_def)
  have k_int: "interior w h (k mod w) (k div w)"
    using interior_index [OF int] int by (simp add: k_def)
  have v: "k < length s \<Longrightarrow> s ! k = 2 \<Longrightarrow> v = 2"
    by (simp add: v_def rd_def)
  from assms(2) have len: "length out = length s"
    and inv: "\<And>i. i < length s \<Longrightarrow> (s ! i = 2 \<longrightarrow> out ! i = 2) \<and>
        (\<not> interior w h (i mod w) (i div w) \<longrightarrow> out ! i = s ! i)"
    by (simp_all add: seal_inv_def)
  have "(s ! i = 2 \<longrightarrow> out[k := v] ! i = 2) \<and>
        (\<not> interior w h (i mod w) (i div w) \<longrightarrow> out[k := v] ! i = s ! i)"
    if "i < length s" for i
  proof (cases "i = k")
    case True
    with that len v k_int show ?thesis by simp
  next
    case False
    with inv [OF that] show ?thesis by simp
  qed
  with len step show ?thesis by (simp add: seal_inv_def)
qed

lemma medianSeal_inv: "seal_inv s w h (medianSeal s w h)"
  unfolding medianSeal_def
  by (rule fold_invariant) (simp_all add: seal_inv_def seal_step_inv [unfolded seal_inv_def])

lemma hyst_fold_unchanged:
  "fold (hyst_step w) ps (out, False) = (out', False) \<Longrightarrow>
     out' = out \<and> list_all (\<lambda>(x, y). \<not> (rd out (y * w + x) = 1 \<and> strong_nb out w x y)) ps"
proof (induction ps arbitrary: out)
  case Nil
  then show ?case by simp
next
  case (Cons p ps)
  obtain x y where p: "p = (x, y)" by (cases p)
  obtain o1 c1 where s1: "hyst_step w p (out, False) = (o1, c1)"
    by (cases "hyst_step w p (out, False)")
  from Cons.prems s1 have f: "fold (hyst_step w) ps (o1, c1) = (out', False)" by simp
  from hyst_fold_weak [OF f] have c1: "\<not> c1" by simp
  with s1 p have no: "\<not> (rd out (y * w + x) = 1 \<and> strong_nb out w x y)" and o1: "o1 = out"
    by (auto simp: hyst_step_def split: if_splits)
  from Cons.IH [of out] f c1 o1 no p show ?case by simp
qed

lemma hyst_loop_fixed: "hyst_pass w h (hyst_loop w h out) = (hyst_loop w h out, False)"
proof (induction w h out rule: hyst_loop.induct)
  case (1 w h out)
  obtain o1 c1 where p: "hyst_pass w h out = (o1, c1)" by (cases "hyst_pass w h out")
  show ?case
  proof (cases c1)
    case True
    with 1 p show ?thesis by simp
  next
    case False
    with p have "o1 = out" using hyst_fold_unchanged [of w "interior_px w h" out o1]
      by (simp add: hyst_pass_def)
    with p False show ?thesis by simp
  qed
qed

lemma hyst_loop_idem: "hyst_loop w h (hyst_loop w h out) = hyst_loop w h out"
proof -
  let ?R = "hyst_loop w h out"
  have "hyst_loop w h ?R =
      (case hyst_pass w h ?R of (out', changed) \<Rightarrow> if changed then hyst_loop w h out' else out')"
    by (rule hyst_loop.simps)
  also have "\<dots> = ?R"
    by (simp only: hyst_loop_fixed prod.case if_False)
  finally show ?thesis .
qed

lemma hyst_loop_no_weak_beside_strong:
  assumes "interior w h x y" and "rd (hyst_loop w h out) (y * w + x) = 1"
  shows "\<not> strong_nb (hyst_loop w h out) w x y"
proof -
  have "fold (hyst_step w) (interior_px w h) (hyst_loop w h out, False) = (hyst_loop w h out, False)"
    using hyst_loop_fixed [of w h out] by (simp add: hyst_pass_def)
  from hyst_fold_unchanged [OF this] assms show ?thesis
    by (auto simp: list_all_iff interior_px_iff [symmetric])
qed

subsection \<open>An image of uniform intensity\<close>

lemma idx_bound: "u < h \<Longrightarrow> v < w \<Longrightarrow> u * w + v < w * (h::nat)"
proof -
  assume u: "u < h" and v: "v < w"
  have "u * w + v < u * w + w" using v by simp
  also have "\<dots> = Suc u * w" by simp
  also have "\<dots> \<le> h * w" using u by (intro mult_le_mono1) simp
  finally show ?thesis by (simp add: mult.commute)
qed

lemma rd_replicate: "rd (replicate n c) j = (if j < n then c else 0)"
  by (simp add: rd_def)

lemma length_concat_replicate: "length (concat (replicate n xs)) = n * length xs"
  by (induction n) simp_all

lemma nth_concat_replicate:
  "length xs = m \<Longrightarrow> j < n \<Longrightarrow> t < m \<Longrightarrow> concat (replicate n xs) ! (m * j + t) = xs ! t"
proof (induction n arbitrary: j)
  case 0
  then show ?case by simp
next
  case (Suc n)
  show ?case
  proof (cases j)
    case 0
    with Suc.prems show ?thesis by (simp add: nth_append)
  next
    case (Suc j')
    with Suc.prems Suc.IH [of j'] show ?thesis
      by (simp add: nth_append add.assoc)
  qed
qed

lemma luma_le: "luma r0 g0 b0 \<le> 255"
  by (simp add: luma_def u8c_def)

lemma toGrayscale_uniform:
  "toGrayscale (concat (replicate n [r0, g0, b0, a0])) = replicate n (luma r0 g0 b0)"
proof -
  let ?img = "concat (replicate n [r0, g0, b0, a0])"
  have rdq: "rd ?img (4 * j + t) = [r0, g0, b0, a0] ! t" if "j < n" "t < 4" for j t
    using that nth_concat_replicate [of "[r0, g0, b0, a0]" 4 j n t]
    by (simp add: rd_def length_concat_replicate)
  have px: "rd ?img (4 * j) = r0" "rd ?img (4 * j + 1) = g0" "rd ?img (4 * j + 2) = b0" if "j < n" for j
    using rdq [OF that, of 0] rdq [OF that, of 1] rdq [OF that, of 2] by simp_all
  have len: "length ?img div 4 = n" by (simp add: length_concat_replicate)
  have "toGrayscale ?img = map (\<lambda>j. luma r0 g0 b0) [0..<n]"
    unfolding toGrayscale_def len luma_def by (rule map_cong) (use px in simp_all)
  then show ?thesis by (simp add: map_replicate_const)
qed

lemma clamp_coord_less: "0 < w \<Longrightarrow> clamp_coord w x xx < w"
  by (auto simp: clamp_coord_def)

lemma bilateral_px_uniform:
  assumes "x < w" "y < h" "c \<le> 255"
  shows "bilateral_px (replicate (w * h) c) w h sigmaR x y = c"
proof -
  have r: "rd (replicate (w * h) c) (clamp_coord h y yy * w + clamp_coord w x xx) = c" for yy xx
    using assms idx_bound [of "clamp_coord h y yy" h "clamp_coord w x xx" w]
      clamp_coord_less [of w x xx] clamp_coord_less [of h y yy]
    by (simp add: rd_replicate)
  have r0: "rd (replicate (w * h) c) (y * w + x) = c"
    using assms idx_bound [of y h x w] by (simp add: rd_replicate)
  have "bitor0 (real c) = int c" by (simp add: bitor0_def)
  with assms(3) show ?thesis
    by (simp add: bilateral_px_def Let_def r r0 range_weight_def u8c_def)
qed

lemma bilateral3_uniform:
  assumes "c \<le> 255"
  shows "bilateral3 (replicate (w * h) c) w h sigmaR = replicate (w * h) c"
proof -
  have "bilateral_px (replicate (w * h) c) w h sigmaR (i mod w) (i div w) = c" if "i < w * h" for i
  proof -
    from that have "0 < w" by (cases w) simp_all
    then have "i mod w < w" by simp
    moreover from that have "i div w < h" by (simp add: less_mult_imp_div_less mult.commute)
    ultimately show ?thesis using assms by (rule bilateral_px_uniform)
  qed
  then have "bilateral3 (replicate (w * h) c) w h sigmaR = map (\<lambda>i. c) [0..<w * h]"
    by (simp add: bilateral3_def)
  then show ?thesis by (simp add: map_replicate_const)
qed

lemma window9_bound:
  assumes "interior w h x y" and "j \<in> set (window9 w x y)"
  shows "j < w * h"
proof -
  from assms(2) obtain dy dx where j: "j = nbi w x y dy dx" and d: "dy \<le> 2" "dx \<le> 2"
    by (auto simp: window9_def)
  from assms(1) d have "y + dy - 1 < h" "x + dx - 1 < w" by (auto simp: interior_def)
  then show ?thesis unfolding j nbi_def by (rule idx_bound)
qed

lemma sobel_g_uniform:
  assumes "interior w h x y" and "kern = gxK \<or> kern = gyK"
  shows "sobel_g kern (replicate (w * h) c) w x y = 0"
proof -
  have "rd (replicate (w * h) c) j = c" if "j \<in> set (window9 w x y)" for j
    using window9_bound [OF assms(1) that] by (simp add: rd_replicate)
  then have "map (\<lambda>j. real (rd (replicate (w * h) c) j)) (window9 w x y)
      = map (\<lambda>j. real c) (window9 w x y)"
    by simp
  then have m: "map (\<lambda>j. real (rd (replicate (w * h) c) j)) (window9 w x y)
      = [real c, real c, real c, real c, real c, real c, real c, real c, real c]"
    by (simp add: window9_def)
  have "sobel_g kern (replicate (w * h) c) w x y
      = sum_list (map2 (\<lambda>kv v. kv * v) kern (map (\<lambda>j. real (rd (replicate (w * h) c) j)) (window9 w x y)))"
    by (simp add: sobel_g_def zip_map2 case_prod_unfold comp_def)
  also have "\<dots> = 0"
    using assms(2) unfolding m by (auto simp: gxK_def gyK_def)
  finally show ?thesis .
qed

lemma sobel_uniform:
  "sobel (replicate (w * h) c) w h = (replicate (w * h) 0, replicate (w * h) 0)"
proof -
  have "(if interior w h (i mod w) (i div w)
         then hypot (sobel_g gxK (replicate (w * h) c) w (i mod w) (i div w))
                (sobel_g gyK (replicate (w * h) c) w (i mod w) (i div w)) else 0) = 0" for i
    by (simp add: sobel_g_uniform hypot_def)
  moreover have "(if interior w h (i mod w) (i div w)
         then atan2 (sobel_g gyK (replicate (w * h) c) w (i mod w) (i div w))
                (sobel_g gxK (replicate (w * h) c) w (i mod w) (i div w)) else 0) = 0" for i
    by (simp add: sobel_g_uniform atan2_def)
  ultimately show ?thesis
    by (simp add: sobel_def map_replicate_const)
qed

lemma nonMaxSuppression_zero:
  "nonMaxSuppression (replicate n 0) ang w h = replicate n 0"
proof -
  have "nms_px (replicate n 0) ang w i = 0" for i
    by (simp add: nms_px_def rd_replicate Let_def split: prod.splits)
  then show ?thesis by (simp add: nonMaxSuppression_def map_replicate_const cong: if_cong)
qed

lemma percentileThresholds_zero:
  "percentileThresholds (replicate n 0) hiPct loPct = (Some 0, Some 0)"
  by (simp add: percentileThresholds_def)

lemma classify_zero: "classify (replicate n 0) (Some 0) (Some 0) = replicate n 2"
  by (simp add: classify_def ge_js_def)

lemma hyst_fold_no_weak:
  "1 \<notin> set out \<Longrightarrow> fold (hyst_step w) ps (out, c) = (out, c)"
proof (induction ps)
  case Nil
  then show ?case by simp
next
  case (Cons p ps)
  obtain x y where p: "p = (x, y)" by (cases p)
  have "rd out (y * w + x) \<noteq> 1"
  proof
    assume "rd out (y * w + x) = 1"
    then have "y * w + x < length out \<and> out ! (y * w + x) = 1"
      using rd_eq_nonzero [of out "y * w + x" 0] by simp
    then have "1 \<in> set out" by (metis nth_mem)
    with Cons.prems show False by simp
  qed
  then have "hyst_step w p (out, c) = (out, c)" by (simp add: hyst_step_def p)
  with Cons show ?case by simp
qed

lemma hyst_loop_no_weak: "1 \<notin> set out \<Longrightarrow> hyst_loop w h out = out"
  by (simp add: hyst_pass_def hyst_fold_no_weak)

lemma medianSeal_all_strong: "medianSeal (replicate n 2) w h = replicate n 2"
proof -
  have "seal_step (replicate n 2) w p (replicate n 2) = replicate n 2" for p
    by (cases p) (auto simp: seal_step_def Let_def rd_replicate list_eq_iff_nth_eq nth_list_update)
  then show ?thesis
    unfolding medianSeal_def by (intro fold_invariant [where P = "\<lambda>s. s = replicate n 2"]) simp_all
qed

lemma paint_all_strong: "paint (replicate n 2) = concat (replicate n [0, 0, 0, 255])"
  by (simp add: paint_def)

subsection \<open>Weak pixels in the final output\<close>

lemma rd_map_resolve: "rd (map resolve_weak s) j = resolve_weak (rd s j)"
  by (simp add: rd_def resolve_weak_def)

lemma resolve_weak_strong: "resolve_weak e = 2 \<longleftrightarrow> e = 2"
  by (simp add: resolve_weak_def)

lemma seal_step_resolve:
  "seal_step (map resolve_weak s) w p (map resolve_weak out) = map resolve_weak (seal_step s w p out)"
proof (cases p)
  case (Pair x y)
  have two: "resolve_weak 2 = 2" by (simp add: resolve_weak_def)
  show ?thesis
    by (simp add: seal_step_def Pair Let_def rd_map_resolve resolve_weak_strong map_update two)
qed

lemma seal_fold_resolve:
  "fold (seal_step (map resolve_weak s) w) ps (map resolve_weak out)
     = map resolve_weak (fold (seal_step s w) ps out)"
  by (induction ps arbitrary: out) (simp_all add: seal_step_resolve)

lemma medianSeal_resolve:
  "medianSeal (map resolve_weak s) w h = map resolve_weak (medianSeal s w h)"
  by (simp add: medianSeal_def seal_fold_resolve)

lemma paint_resolve: "paint (map resolve_weak s) = paint s"
  by (simp add: paint_def comp_def resolve_weak_strong)

lemma set_paint: "set (paint s) \<subseteq> {0, 255}"
  by (auto simp: paint_def Let_def)

lemma edge_nms_uniform:
  "edge_nms (concat (replicate (w * h) [r0, g0, b0, a0])) w h = replicate (w * h) 0"
  by (simp add: edge_nms_def toGrayscale_uniform bilateral3_uniform luma_le sobel_uniform
      nonMaxSuppression_zero)

lemma hysteresis_zero:
  "hysteresis (replicate n 0) w h (Some 0) (Some 0) = replicate n 2"
proof -
  have "(1::nat) \<notin> set (replicate n 2)" by simp
  then have "hyst_loop w h (replicate n 2) = replicate n 2" by (rule hyst_loop_no_weak)
  then show ?thesis by (simp only: hysteresis_def classify_zero)
qed

subsection \<open>Hysteresis in the pipeline\<close>


lemma at_pct_positive:
  assumes "\<forall>v\<in>set vals. 0 < v" and "at_pct vals pct = Some u"
  shows "0 < u"
proof -
  let ?k = "\<lfloor>real (length vals) * pct\<rfloor>"
  from assms(2) have k: "0 \<le> ?k" "?k < int (length vals)" "u = vals ! nat ?k"
    by (auto simp: at_pct_def Let_def split: if_splits)
  then have "nat ?k < length vals" by linarith
  then have "vals ! nat ?k \<in> set vals" by (rule nth_mem)
  with assms(1) k(3) show ?thesis by simp
qed

lemma percentileThresholds_cases:
  assumes "percentileThresholds nms hiPct loPct = (high, low)"
  shows "(high = Some 0 \<and> low = Some 0) \<or> low = None \<or> (\<exists>l. low = Some l \<and> 0 < l)"
proof (cases "sort (filter (\<lambda>v. v > 0) nms) = []")
  case True
  with assms show ?thesis by (auto simp: percentileThresholds_def)
next
  case False
  let ?vals = "sort (filter (\<lambda>v. v > 0) nms)"
  from assms False have l: "low = at_pct ?vals loPct"
    by (simp add: percentileThresholds_def Let_def)
  have pos: "\<forall>v\<in>set ?vals. 0 < v" by simp
  show ?thesis
  proof (cases low)
    case None
    then show ?thesis by simp
  next
    case (Some u)
    with l have "at_pct ?vals loPct = Some u" by simp
    then have "0 < u" by (rule at_pct_positive [OF pos])
    with Some show ?thesis by blast
  qed
qed

lemma classify_zero_not_weak:
  assumes "percentileThresholds nms0 hiPct loPct = (high, low)" and "i < length nms" and "nms ! i = 0"
  shows "classify nms high low ! i \<noteq> 1"
  using percentileThresholds_cases [OF assms(1)] assms(2,3)
  by (auto simp: classify_def ge_js_def)

lemma window8_member:
  assumes "adjacent8 (x, y) (x', y')" and "1 \<le> x" and "1 \<le> y"
  shows "y' * w + x' \<in> set (window8 w x y)"
proof -
  define dy where "dy = y' + 1 - y"
  define dx where "dx = x' + 1 - x"
  from assms have d: "dy \<le> 2" "dx \<le> 2" "\<not> (dy = 1 \<and> dx = 1)"
    and e: "y + dy - 1 = y'" "x + dx - 1 = x'"
    by (auto simp: adjacent8_def dy_def dx_def)
  from d have "dy \<in> {0, 1, 2}" "dx \<in> {0, 1, 2}" by auto
  with d(3) have "nbi w x y dy dx \<in> set (window8 w x y)"
    unfolding window8_def by auto
  with e show ?thesis by (simp add: nbi_def)
qed

lemma all_px_iff: "(x, y) \<in> set (all_px w h) \<longleftrightarrow> x < w \<and> y < h"
  by (force simp: all_px_def)

lemma pipeline_no_weak_beside_strong:
  assumes th: "percentileThresholds nms0 hiPct loPct = (high, low)"
    and border: "border_zero nms w h"
  shows "\<not> weak_beside_strong (hysteresis nms w h high low) w h"
proof
  let ?res = "hysteresis nms w h high low"
  assume "weak_beside_strong ?res w h"
  then obtain x y x' y' where p: "x < w" "y < h" and adj: "adjacent8 (x, y) (x', y')"
    and wk: "rd ?res (y * w + x) = 1" and st: "rd ?res (y' * w + x') = 2"
    by (auto simp: weak_beside_strong_def list_ex_iff all_px_iff)
  have prom: "only_promotes (classify nms high low) ?res"
    unfolding hysteresis_def by (rule hyst_loop_promotes)
  from wk have in_range: "y * w + x < length ?res" and wk': "?res ! (y * w + x) = 1"
    using rd_eq_nonzero [of ?res "y * w + x" 0] by simp_all
  have lc: "length (classify nms high low) = length nms" by (simp add: classify_def)
  from prom in_range have len: "y * w + x < length nms"
    by (simp add: only_promotes_iff lc)
  from prom len wk' have c: "classify nms high low ! (y * w + x) = 1"
    by (auto simp: only_promotes_iff lc)
  have int: "interior w h x y"
  proof (rule ccontr)
    assume "\<not> interior w h x y"
    with p have ni: "\<not> interior w h ((y * w + x) mod w) ((y * w + x) div w)" by simp
    from border have "\<forall>i<length nms. interior w h (i mod w) (i div w) \<or> nms ! i = 0"
      by (simp add: border_zero_def list_all_iff)
    with len have "interior w h ((y * w + x) mod w) ((y * w + x) div w) \<or> nms ! (y * w + x) = 0"
      by blast
    with ni have "nms ! (y * w + x) = 0" by blast
    from classify_zero_not_weak [OF th len this] c show False by simp
  qed
  then have "1 \<le> x" "1 \<le> y" by (simp_all add: interior_def)
  with adj have "y' * w + x' \<in> set (window8 w x y)" by (rule window8_member)
  with st have "strong_nb ?res w x y" by (auto simp: strong_nb_def list_ex_iff)
  moreover have "\<not> strong_nb ?res w x y"
    unfolding hysteresis_def
    using hyst_loop_no_weak_beside_strong [OF int] wk by (simp add: hysteresis_def)
  ultimately show False by simp
qed

lemma nonMaxSuppression_border: "border_zero (nonMaxSuppression mag ang w h) w h"
  by (simp add: border_zero_def nonMaxSuppression_def list_all_iff)

lemma edge_nms_border: "border_zero (edge_nms img w h) w h"
  by (simp add: edge_nms_def Let_def nonMaxSuppression_border split: prod.split)

subsection \<open>The claims about the edge extractor\<close>

text \<open>
  C4. For an image of uniform colour the output of the non-maximum suppression is zero
  everywhere and \<open>percentileThresholds\<close> returns \<open>{high: 0, low: 0}\<close>. With both
  thresholds 0 the test \<open>nms[i] >= high\<close> holds at every pixel, so hysteresis classifies
  every pixel as strong, and the raster painted by \<open>toEdgePng\<close> is black throughout (not
  blank white).
\<close>

theorem uniform_image_painted_black:
  "edge_nms (concat (replicate (w * h) [r0, g0, b0, a0])) w h = replicate (w * h) 0
   \<and> percentileThresholds (replicate (w * h) 0) hiPct loPct = (Some 0, Some 0)
   \<and> hysteresis (replicate (w * h) 0) w h (Some 0) (Some 0) = replicate (w * h) 2
   \<and> toEdgePng_core (concat (replicate (w * h) [r0, g0, b0, a0])) w h ui
       = concat (replicate (w * h) [0, 0, 0, 255])"
  by (simp add: toEdgePng_core_def edge_states_def edge_nms_uniform percentileThresholds_zero
      hysteresis_zero medianSeal_all_strong paint_all_strong)

text \<open>
  C5, as the claim states it, fails: after the linking loop has ended a pixel can still hold
  the weak state. Here the centre of a 3x3 buffer is weak and has no strong neighbour.
\<close>

theorem weak_state_remains_counterexample:
  "hysteresis [0, 0, 0, 0, 1, 0, 0, 0, 0] 3 3 (Some 4) (Some (1 / 2)) ! 4 = 1"
  by code_simp

text \<open>
  C5, amended. Unpromoted weak pixels keep the state weak in the buffer that hysteresis
  returns; they count as background only in what follows: the seal and the painting test
  for the strong state alone, so the painted raster is the one obtained after resolving
  every weak state to background, and each of its bytes is 0 or 255.
\<close>

theorem weak_painted_as_background:
  "paint (medianSeal (map resolve_weak (hysteresis nms w h high low)) w h)
     = paint (medianSeal (hysteresis nms w h high low) w h)
   \<and> set (toEdgePng_core img w h ui) \<subseteq> {0, 255}"
  by (simp add: medianSeal_resolve paint_resolve toEdgePng_core_def set_paint)

text \<open>
  C9. A further scan of the output of hysteresis promotes nothing, and the promotion loop run
  again on the output returns it unchanged: the output is a fixed point. In it no weak pixel
  off the border ring has a strong pixel among its eight neighbours; and where hysteresis is
  called, in \<open>toEdgePng\<close>, with the thresholds that \<open>percentileThresholds\<close> returns and a
  buffer that is 0 on the border ring, as every output of \<open>nonMaxSuppression\<close> is, no weak
  pixel at all is 8-adjacent to a strong pixel. The last conjunct says so for the call of
  \<open>toEdgePng\<close> itself, for every image and every pair of percentiles.
\<close>

theorem hysteresis_fixed_point:
  "hyst_pass w h (hysteresis nms w h high low) = (hysteresis nms w h high low, False)
   \<and> hyst_loop w h (hysteresis nms w h high low) = hysteresis nms w h high low
   \<and> (interior w h x y \<and> rd (hysteresis nms w h high low) (y * w + x) = 1
        \<longrightarrow> \<not> strong_nb (hysteresis nms w h high low) w x y)
   \<and> (percentileThresholds nms0 hiPct loPct = (high, low) \<and> border_zero nms w h
        \<longrightarrow> \<not> weak_beside_strong (hysteresis nms w h high low) w h)
   \<and> border_zero (nonMaxSuppression mag ang w h) w h
   \<and> \<not> weak_beside_strong
         (hysteresis (edge_nms img w h) w h
            (fst (percentileThresholds (edge_nms img w h) hiPct loPct))
            (snd (percentileThresholds (edge_nms img w h) hiPct loPct))) w h"
proof -
  have "hyst_pass w h (hysteresis nms w h high low) = (hysteresis nms w h high low, False)"
    and "hyst_loop w h (hysteresis nms w h high low) = hysteresis nms w h high low"
    unfolding hysteresis_def by (rule hyst_loop_fixed, rule hyst_loop_idem)
  moreover have "interior w h x y \<and> rd (hysteresis nms w h high low) (y * w + x) = 1
        \<longrightarrow> \<not> strong_nb (hysteresis nms w h high low) w x y"
    unfolding hysteresis_def using hyst_loop_no_weak_beside_strong by blast
  moreover have "\<not> weak_beside_strong
         (hysteresis (edge_nms img w h) w h
            (fst (percentileThresholds (edge_nms img w h) hiPct loPct))
            (snd (percentileThresholds (edge_nms img w h) hiPct loPct))) w h"
    by (rule pipeline_no_weak_beside_strong [OF _ edge_nms_border]) simp
  ultimately show ?thesis
    using pipeline_no_weak_beside_strong [of nms0 hiPct loPct high low nms w h]
      nonMaxSuppression_border [of mag ang w h]
    by blast
qed

theorem hysteresis_fixed_point_witness:
  "interior 3 3 1 1
   \<and> rd (hysteresis [0, 0, 0, 0, 1, 0, 0, 0, 0] 3 3 (Some 4) (Some (1 / 2))) (1 * 3 + 1) = 1
   \<and> \<not> strong_nb (hysteresis [0, 0, 0, 0, 1, 0, 0, 0, 0] 3 3 (Some 4) (Some (1 / 2))) 3 1 1
   \<and> hyst_loop 3 3 (hysteresis [0, 0, 0, 0, 1, 0, 0, 0, 0] 3 3 (Some 4) (Some (1 / 2)))
       = hysteresis [0, 0, 0, 0, 1, 0, 0, 0, 0] 3 3 (Some 4) (Some (1 / 2))
   \<and> percentileThresholds [0, 0, 0, 0, 5, 0, 0, 0, 0] (9 / 10) (99 / 200) = (Some 5, Some 5)
   \<and> border_zero [0, 0, 0, 0, 5, 0, 0, 0, 0] 3 3
   \<and> \<not> weak_beside_strong (hysteresis [0, 0, 0, 0, 5, 0, 0, 0, 0] 3 3 (Some 5) (Some 5)) 3 3"
proof -
  have i: "interior 3 3 1 1" by (simp add: interior_def)
  have v: "rd (hysteresis [0, 0, 0, 0, 1, 0, 0, 0, 0] 3 3 (Some 4) (Some (1 / 2))) (1 * 3 + 1) = 1"
    by code_simp
  have t: "percentileThresholds [0, 0, 0, 0, 5, 0, 0, 0, 0] (9 / 10) (99 / 200) = (Some 5, Some 5)"
    by code_simp
  have z: "border_zero [0, 0, 0, 0, 5, 0, 0, 0, 0] 3 3" by code_simp
  from hysteresis_fixed_point
         [of 3 3 "[0, 0, 0, 0, 1, 0, 0, 0, 0]" "Some 4" "Some (1 / 2)" 1 1]
       hysteresis_fixed_point
         [of 3 3 "[0, 0, 0, 0, 5, 0, 0, 0, 0]" "Some 5" "Some 5" 1 1
             "[0, 0, 0, 0, 5, 0, 0, 0, 0]" "9 / 10" "99 / 200"]
       i v t z
  show ?thesis by blast
qed

text \<open>
  C10. Hysteresis keeps the length of the buffer, leaves every pixel that the thresholds
  classify as strong strong and every background pixel background; \<open>medianSeal\<close> keeps the
  length, leaves every strong pixel strong and copies every pixel of the border ring (every
  pixel its loop does not visit) unchanged.
\<close>

theorem hysteresis_medianSeal_monotone:
  "length (hysteresis nms w h high low) = length nms
   \<and> (i < length nms \<and> classify nms high low ! i = 2 \<longrightarrow> hysteresis nms w h high low ! i = 2)
   \<and> (i < length nms \<and> classify nms high low ! i = 0 \<longrightarrow> hysteresis nms w h high low ! i = 0)
   \<and> length (medianSeal s w h) = length s
   \<and> (j < length s \<and> s ! j = 2 \<longrightarrow> medianSeal s w h ! j = 2)
   \<and> (j < length s \<and> \<not> interior w h (j mod w) (j div w) \<longrightarrow> medianSeal s w h ! j = s ! j)"
proof -
  have "only_promotes (classify nms high low) (hysteresis nms w h high low)"
    unfolding hysteresis_def by (rule hyst_loop_promotes)
  then have "length (hysteresis nms w h high low) = length nms"
    and "i < length nms \<Longrightarrow> hysteresis nms w h high low ! i = classify nms high low ! i
           \<or> (classify nms high low ! i = 1 \<and> hysteresis nms w h high low ! i = 2)"
    by (simp_all add: only_promotes_iff classify_def)
  moreover have "seal_inv s w h (medianSeal s w h)" by (rule medianSeal_inv)
  ultimately show ?thesis by (auto simp: seal_inv_def)
qed

theorem hysteresis_medianSeal_monotone_witness:
  "(4::nat) < length [0, 5, 0, 0, 1, 0, 0, 0, 0::real]
   \<and> classify [0, 5, 0, 0, 1, 0, 0, 0, 0] (Some 4) (Some (1 / 2)) ! 1 = 2
   \<and> hysteresis [0, 5, 0, 0, 1, 0, 0, 0, 0] 3 3 (Some 4) (Some (1 / 2)) ! 1 = 2
   \<and> classify [0, 5, 0, 0, 1, 0, 0, 0, 0] (Some 4) (Some (1 / 2)) ! 0 = 0
   \<and> hysteresis [0, 5, 0, 0, 1, 0, 0, 0, 0] 3 3 (Some 4) (Some (1 / 2)) ! 0 = 0
   \<and> [2, 2, 2, 2, 0, 2, 0, 0, 0] ! 0 = (2::nat)
   \<and> \<not> interior 3 3 (0 mod 3) (0 div 3)
   \<and> medianSeal [2, 2, 2, 2, 0, 2, 0, 0, 0] 3 3 ! 0 = 2"
proof -
  have c1: "classify [0, 5, 0, 0, 1, 0, 0, 0, 0] (Some 4) (Some (1 / 2)) ! 1 = 2"
    and c0: "classify [0, 5, 0, 0, 1, 0, 0, 0, 0] (Some 4) (Some (1 / 2)) ! 0 = 0"
    by (simp_all add: classify_def ge_js_def)
  have b: "\<not> interior 3 3 (0 mod 3) (0 div 3)" by (simp add: interior_def)
  from hysteresis_medianSeal_monotone
         [of "[0, 5, 0, 0, 1, 0, 0, 0, 0]" 3 3 "Some 4" "Some (1 / 2)" 1 "[2, 2, 2, 2, 0, 2, 0, 0, 0]" 0]
       hysteresis_medianSeal_monotone
         [of "[0, 5, 0, 0, 1, 0, 0, 0, 0]" 3 3 "Some 4" "Some (1 / 2)" 0 "[2, 2, 2, 2, 0, 2, 0, 0, 0]" 0]
       c1 c0 b
  show ?thesis by simp
qed

section \<open>Properties of the numbers with special values\<close>

lemmas num_ops = plus_num_def uminus_num_def minus_num_def times_num_def divide_num_def
  abs_num_def less_num_def less_eq_num_def

lemma fits_bound: "(2::real) ^ 1023 < 2 ^ 1024 - 2 ^ 970"
proof -
  have "(2::real) ^ 970 < 2 ^ 1023" by (rule power_strict_increasing) simp_all
  moreover have "(2::real) ^ 1024 = 2 * 2 ^ 1023"
    using power_Suc [of "2::real" 1023] by simp
  ultimately show ?thesis by linarith
qed

lemma ovf_fits: "\<bar>v\<bar> \<le> 2 ^ 1023 \<Longrightarrow> ovf v = Fin v"
  using fits_bound by (simp add: ovf_def)

lemma ovf_over: "2 ^ 1024 \<le> v \<Longrightarrow> ovf v = PInf"
proof -
  assume a: "2 ^ 1024 \<le> v"
  have "(0::real) < 2 ^ 970" and "(0::real) < 2 ^ 1024" by simp_all
  with a have "\<not> \<bar>v\<bar> < 2 ^ 1024 - 2 ^ 970" and "0 < v" by linarith+
  then show ?thesis by (simp add: ovf_def)
qed

lemma NaN_absorb [simp]:
  "nadd u NaN = NaN" "nadd NaN u = NaN" "nmul u NaN = NaN" "nmul NaN u = NaN"
  "ndiv u NaN = NaN" "ndiv NaN u = NaN" "nhypot NaN (Fin x) = NaN" "nhypot (Fin x) NaN = NaN"
  by (cases u; simp)+

lemma Fin_le [simp]: "Fin x \<le> Fin y \<longleftrightarrow> x \<le> y"
  by (simp add: less_eq_num_def)

lemma Fin_less [simp]: "Fin x < Fin y \<longleftrightarrow> x < y"
  by (simp add: less_num_def)

lemma Fin_uminus [simp]: "- Fin x = Fin (- x)"
  by (simp add: uminus_num_def)

lemma Let_Fin: "Let (Fin v) f = f (Fin v)"
  by (simp add: Let_def)

section \<open>Properties of the dominant-colour extractor\<close>

subsection \<open>The de-duplication, the empty sample set, the seeding loop\<close>

lemma findIndex_nth: "findIndex P xs = int i \<Longrightarrow> i < length xs \<and> P (xs ! i)"
proof (induction xs arbitrary: i)
  case Nil
  then show ?case by simp
next
  case (Cons x xs)
  show ?case
  proof (cases "P x")
    case True
    with Cons.prems show ?thesis by simp
  next
    case False
    with Cons.prems obtain i' where "i = Suc i'" "findIndex P xs = int i'"
      by (cases i) (auto simp: Let_def split: if_splits)
    with Cons.IH [of i'] show ?thesis by simp
  qed
qed

lemma similarHex_self: "similarHex x x tol = False"
  by (simp add: similarHex_def Let_def split: prod.splits option.splits)

lemma dedup_empty: "dedup arr = []"
proof -
  have "int (fst e) \<noteq> findIndex (\<lambda>y. similarHex (snd e) y 8) arr" if "e \<in> set (enumerate 0 arr)" for e
  proof
    assume "int (fst e) = findIndex (\<lambda>y. similarHex (snd e) y 8) arr"
    then have "similarHex (snd e) (arr ! fst e) 8"
      using findIndex_nth [of "\<lambda>y. similarHex (snd e) y 8" arr "fst e"] by simp
    moreover from that have "arr ! fst e = snd e" by (simp add: in_set_enumerate_eq)
    ultimately show False by (simp add: similarHex_self)
  qed
  then show ?thesis by (simp add: dedup_def filter_empty_conv)
qed

lemma slice0_Nil: "slice0 [] k = []"
  by (simp add: slice0_def)

lemma getDominantHexes_result:
  "getDominantHexes pixels w h k rnd = Some (res, n) \<Longrightarrow> res = []"
  by (auto simp: getDominantHexes_def Let_def dedup_empty slice0_Nil split: option.splits)

lemma kmeansPP_Nil: "kmeansPP [] k rnd = Some ([], 0)"
  by (simp add: kmeansPP_def)

lemma kmeansPP_num_Nil: "kmeansPP_num [] c rnd = Some ([], 0)"
  by (cases c) (simp_all add: kmeansPP_num_def kmeansPP_Nil)

lemma kmeansPP_num_Fin: "kmeansPP_num pts (Fin (real_of_int c)) rnd = kmeansPP pts c rnd"
  by (simp add: kmeansPP_num_def)

text \<open>
  The cluster count is always a finite whole number: the divisor is the literal 200, and
  the minimum with the finite \<open>k\<close> is finite even where the quotient is not.
\<close>

lemma cluster_count_fits:
  assumes "real len / 200 < 2 ^ 1024 - 2 ^ 970"
  shows "cluster_count k len = Fin (real_of_int (min k (max 3 (int (len div 200)))))"
proof -
  have "0 \<le> real len / 200" by simp
  with assms have q: "Fin (real len) / Fin 200 = Fin (real len / 200)"
    by (simp add: divide_num_def ovf_def)
  have fl: "\<lfloor>real len / 200\<rfloor> = int (len div 200)"
    using floor_divide_of_nat_eq [of len 200, where ?'a = real] by simp
  show ?thesis
    unfolding cluster_count_def q by (simp add: fl nmax_def nmin_def min_def max_def)
qed

lemma cluster_count_eq:
  assumes "real len \<le> 2 ^ 1023"
  shows "cluster_count k len = Fin (real_of_int (min k (max 3 (int (len div 200)))))"
proof (rule cluster_count_fits)
  have "real len / 200 \<le> real len" by simp
  with assms fits_bound show "real len / 200 < 2 ^ 1024 - 2 ^ 970" by linarith
qed

lemma cluster_count_finite:
  "\<exists>c. cluster_count k len = Fin (real_of_int c) \<and> min k 3 \<le> c \<and> c \<le> k"
proof (cases "real len / 200 < 2 ^ 1024 - 2 ^ 970")
  case True
  from cluster_count_fits [OF True, of k] show ?thesis
    by (intro exI [of _ "min k (max 3 (int (len div 200)))"]) auto
next
  case False
  have "(0::real) < 2 ^ 1024 - 2 ^ 970" using fits_bound by (smt (verit) zero_less_power)
  with False have "0 < real len / 200" by linarith
  with False have q: "Fin (real len) / Fin 200 = PInf"
    by (simp add: divide_num_def ovf_def)
  have "cluster_count k len = Fin (real_of_int k)"
    unfolding cluster_count_def q by (simp add: nmax_def nmin_def less_eq_num_def)
  then show ?thesis by (intro exI [of _ k]) simp
qed

lemma getDominantHexes_empty:
  "filter keep_sample (samplePixels pixels w h 1) = [] \<Longrightarrow>
     getDominantHexes pixels w h k rnd = Some ([], 0)"
  by (simp add: getDominantHexes_def Let_def kmeansPP_num_Nil dedup_empty slice0_Nil)

lemma steps_one: "steps n 1 = [0..<n]"
  by (simp add: steps_def map_idI)

lemma seed_done: "\<not> int (length cs) < k \<Longrightarrow> seed_loop pts k rnd cs n = Some (cs, n)"
  by (subst seed_loop.simps) simp

lemma seed_push:
  "int (length cs) < k \<Longrightarrow> seed_pick pts rnd cs n = Some i \<Longrightarrow>
     seed_loop pts k rnd cs n = seed_loop pts k rnd (cs @ [new_center (pts ! i)]) (Suc n)"
  by (subst seed_loop.simps) (simp add: seed_pick_def Let_def)

lemma seed_skip:
  "int (length cs) < k \<Longrightarrow> seed_pick pts rnd cs n = None \<Longrightarrow>
     seed_loop pts k rnd cs n = seed_loop pts k rnd cs (Suc n)"
  by (subst seed_loop.simps) (simp add: seed_pick_def Let_def)

lemma pick_zeros: "0 < rem \<Longrightarrow> pick (replicate m 0) rem i = None"
  by (induction m arbitrary: i) simp_all

lemma seed_pick_covered:
  assumes "\<forall>p\<in>set pts. min_dist2 cs p = 0" and "0 < rnd n"
  shows "seed_pick pts rnd cs n = None"
proof -
  have "map (min_dist2 cs) pts = replicate (length pts) 0"
    using assms(1) by (simp add: map_replicate_const [symmetric] cong: map_cong)
  with assms(2) show ?thesis by (simp add: seed_pick_def Let_def pick_zeros sum_list_replicate)
qed

text \<open>
  When every point coincides with a centre and no later call of \<open>Math.random()\<close> returns
  exactly 0, the seeding loop never gets its next centre: it does not return.
\<close>

lemma seed_loop_returns_not_covered:
  assumes ret: "seed_loop pts k rnd cs n = Some y"
  shows "\<not> (int (length cs) < k \<and> (\<forall>p\<in>set pts. min_dist2 cs p = 0) \<and> (\<forall>m\<ge>n. 0 < rnd m))"
  apply (rule seed_loop.raw_induct
      [where P = "\<lambda>pts k rnd cs n y.
          \<not> (int (length cs) < k \<and> (\<forall>p\<in>set pts. min_dist2 cs p = 0) \<and> (\<forall>m\<ge>n. 0 < rnd m))",
        OF _ ret])
  subgoal premises prems for sl pts k rnd cs n y
  proof
    assume a: "int (length cs) < k \<and> (\<forall>p\<in>set pts. min_dist2 cs p = 0) \<and> (\<forall>m\<ge>n. 0 < rnd m)"
    then have "seed_pick pts rnd cs n = None" by (intro seed_pick_covered) simp_all
    with prems(2) a have "sl pts k rnd cs (Suc n) = Some y"
      by (simp add: seed_pick_def Let_def)
    then have "\<not> (int (length cs) < k \<and> (\<forall>p\<in>set pts. min_dist2 cs p = 0) \<and> (\<forall>m\<ge>Suc n. 0 < rnd m))"
      by (rule prems(1))
    moreover from a have "\<forall>m\<ge>Suc n. 0 < rnd m" by (simp add: Suc_leD)
    ultimately show False using a by simp
  qed
  done

lemma seed_loop_diverges:
  assumes "int (length cs) < k" and "\<forall>p\<in>set pts. min_dist2 cs p = 0" and "\<forall>m\<ge>n. 0 < rnd m"
  shows "seed_loop pts k rnd cs n = None"
  using assms seed_loop_returns_not_covered [of pts k rnd cs n]
  by (cases "seed_loop pts k rnd cs n") auto

lemma seed_pick_cong: "rnd' n = rnd n \<Longrightarrow> seed_pick pts rnd' cs n = seed_pick pts rnd cs n"
  by (simp add: seed_pick_def)

lemma seed_loop_unfold:
  "seed_loop pts k rnd cs n =
     (if int (length cs) < k then
        (case seed_pick pts rnd cs n of
           Some i \<Rightarrow> seed_loop pts k rnd (cs @ [new_center (pts ! i)]) (Suc n)
         | None \<Rightarrow> seed_loop pts k rnd cs (Suc n))
      else Some (cs, n))"
  by (subst seed_loop.simps) (simp add: seed_pick_def Let_def)

text \<open>
  A run of the seeding that returns after \<open>n'\<close> calls of \<open>Math.random()\<close> depends on the
  values of those calls only.
\<close>

lemma seed_loop_frame:
  assumes ret: "seed_loop pts k rnd cs n = Some y"
  shows "n \<le> snd y \<and> (\<forall>rnd'. (\<forall>i. n \<le> i \<and> i < snd y \<longrightarrow> rnd' i = rnd i)
           \<longrightarrow> seed_loop pts k rnd' cs n = Some y)"
  apply (rule seed_loop.raw_induct
      [where P = "\<lambda>pts k rnd cs n y. n \<le> snd y \<and>
          (\<forall>rnd'. (\<forall>i. n \<le> i \<and> i < snd y \<longrightarrow> rnd' i = rnd i) \<longrightarrow> seed_loop pts k rnd' cs n = Some y)",
        OF _ ret])
  subgoal premises prems for sl pts k rnd cs n y
  proof (cases "int (length cs) < k")
    case False
    with prems(2) have "y = (cs, n)" by simp
    with False show ?thesis by (simp add: seed_done)
  next
    case True
    define cs' where
      "cs' = (case seed_pick pts rnd cs n of Some i \<Rightarrow> cs @ [new_center (pts ! i)] | None \<Rightarrow> cs)"
    from prems(2) True have
      "(case seed_pick pts rnd cs n of
          Some i \<Rightarrow> sl pts k rnd (cs @ [new_center (pts ! i)]) (Suc n)
        | None \<Rightarrow> sl pts k rnd cs (Suc n)) = Some y"
      by (simp add: seed_pick_def Let_def)
    then have "sl pts k rnd cs' (Suc n) = Some y"
      by (simp add: cs'_def split: option.splits)
    from prems(1) [OF this]
    have le: "Suc n \<le> snd y"
      and fr: "\<And>rnd'. (\<forall>i. Suc n \<le> i \<and> i < snd y \<longrightarrow> rnd' i = rnd i) \<Longrightarrow>
                 seed_loop pts k rnd' cs' (Suc n) = Some y"
      by simp_all
    have "seed_loop pts k rnd' cs n = Some y"
      if ag: "\<forall>i. n \<le> i \<and> i < snd y \<longrightarrow> rnd' i = rnd i" for rnd'
    proof -
      from ag le have "rnd' n = rnd n" by simp
      then have "seed_pick pts rnd' cs n = seed_pick pts rnd cs n" by (rule seed_pick_cong)
      with True have "seed_loop pts k rnd' cs n = seed_loop pts k rnd' cs' (Suc n)"
        by (subst seed_loop_unfold) (simp add: cs'_def split: option.splits)
      also from ag have "\<dots> = Some y" by (intro fr) simp
      finally show ?thesis .
    qed
    with le show ?thesis by simp
  qed
  done

lemma kmeansPP_frame:
  assumes "kmeansPP pts k rnd = Some (cs, n)" and "\<forall>i<n. rnd' i = rnd i"
  shows "kmeansPP pts k rnd' = Some (cs, n)"
proof (cases "pts = []")
  case True
  with assms show ?thesis by (simp add: kmeansPP_def)
next
  case False
  let ?c0 = "\<lambda>f. [new_center (pts ! nat (bitor0 (f 0 * real (length pts))))]"
  from assms(1) False obtain cs0 where
    s: "seed_loop pts k rnd (?c0 rnd) 1 = Some (cs0, n)" and cs: "cs = (lloyd_iter pts ^^ 8) cs0"
    by (auto simp: kmeansPP_def split: option.splits)
  from seed_loop_frame [OF s] have le: "1 \<le> n"
    and fr: "\<And>f. (\<forall>i. 1 \<le> i \<and> i < n \<longrightarrow> f i = rnd i) \<Longrightarrow> seed_loop pts k f (?c0 rnd) 1 = Some (cs0, n)"
    by simp_all
  from assms(2) le have "rnd' 0 = rnd 0" by simp
  moreover from assms(2) have "seed_loop pts k rnd' (?c0 rnd) 1 = Some (cs0, n)" by (intro fr) simp
  ultimately show ?thesis using False cs by (simp add: kmeansPP_def)
qed

lemma getDominantHexes_frame:
  assumes "getDominantHexes pixels w h k rnd = Some (res, n)" and "\<forall>i<n. rnd' i = rnd i"
  shows "getDominantHexes pixels w h k rnd' = Some (res, n)"
proof -
  let ?pts = "filter keep_sample (samplePixels pixels w h 1)"
  obtain c where c: "cluster_count k (length ?pts) = Fin (real_of_int c)"
    using cluster_count_finite [of k "length ?pts"] by blast
  from assms(1) have "(case kmeansPP ?pts c rnd of None \<Rightarrow> None
      | Some (centers, n) \<Rightarrow>
          Some (slice0 (dedup (map rgbToHex
                  (js_sort (\<lambda>x y. Some (weight y - weight x)) centers))) (max 3 k), n))
      = Some (res, n)"
    unfolding getDominantHexes_def Let_def c kmeansPP_num_Fin .
  then obtain cs where km: "kmeansPP ?pts c rnd = Some (cs, n)"
    and res: "res = slice0 (dedup (map rgbToHex (js_sort (\<lambda>x y. Some (weight y - weight x)) cs))) (max 3 k)"
    by (auto split: option.splits)
  show ?thesis
    unfolding getDominantHexes_def Let_def c kmeansPP_num_Fin
    using kmeansPP_frame [OF km assms(2)] res by simp
qed

lemma length_grid: "length [(x, y). y \<leftarrow> [0..<h], x \<leftarrow> [0..<w]] = w * h"
  by (simp add: length_concat comp_def sum_list_triv)

lemma concat_map_single: "concat (map (\<lambda>p. [c]) ps) = replicate (length ps) c"
  by (induction ps) simp_all

lemma samplePixels_solid:
  assumes "8 \<le> ca"
  shows "samplePixels (concat (replicate (w * h) [cr, cg, cb, ca])) w h 1
           = replicate (w * h) \<lparr>r = real cr, g = real cg, b = real cb\<rparr>"
proof -
  let ?raw = "concat (replicate (w * h) [cr, cg, cb, ca])"
  let ?f = "\<lambda>p. case p of (x, y) \<Rightarrow>
                   let i = (y * w + x) * 4; a = rd ?raw (i + 3)
                   in if a < 8 then []
                      else [\<lparr>r = real (rd ?raw i), g = real (rd ?raw (i + 1)), b = real (rd ?raw (i + 2))\<rparr>]"
  have rdq: "rd ?raw (4 * j + t) = [cr, cg, cb, ca] ! t" if "j < w * h" "t < 4" for j t
    using that nth_concat_replicate [of "[cr, cg, cb, ca]" 4 j "w * h" t]
    by (simp add: rd_def length_concat_replicate)
  have "?f p = [\<lparr>r = real cr, g = real cg, b = real cb\<rparr>]"
    if "p \<in> set [(x, y). y \<leftarrow> [0..<h], x \<leftarrow> [0..<w]]" for p
  proof -
    obtain x y where p: "p = (x, y)" by (cases p)
    with that have "y < h" "x < w" by auto
    then have j: "y * w + x < w * h" by (rule idx_bound)
    from rdq [OF j, of 0] rdq [OF j, of 1] rdq [OF j, of 2] rdq [OF j, of 3] assms
    show ?thesis by (simp add: p Let_def mult.commute)
  qed
  then have "map ?f [(x, y). y \<leftarrow> [0..<h], x \<leftarrow> [0..<w]]
      = map (\<lambda>p. [\<lparr>r = real cr, g = real cg, b = real cb\<rparr>]) [(x, y). y \<leftarrow> [0..<h], x \<leftarrow> [0..<w]]"
    by (intro map_cong) simp_all
  then show ?thesis
    unfolding samplePixels_def steps_one by (simp only: concat_map_single length_grid)
qed

lemma min_dist2_own: "min_dist2 [new_center p] p = 0"
  by (simp add: min_dist2_def dist2_def new_center_def)

text \<open>
  A solid image whose colour passes the filter, cluster count at least 2: unless a later
  call of \<open>Math.random()\<close> returns exactly 0, \<open>getDominantHexes\<close> does not return.
\<close>

lemma solid_kept_diverges:
  assumes "8 \<le> ca" and "keep_sample \<lparr>r = real cr, g = real cg, b = real cb\<rparr>"
    and "0 < w * h" and "2 \<le> k" and "0 \<le> rnd 0" and "rnd 0 < 1" and "\<forall>m\<ge>1. 0 < rnd m"
  shows "getDominantHexes (concat (replicate (w * h) [cr, cg, cb, ca])) w h k rnd = None"
proof -
  let ?c = "\<lparr>r = real cr, g = real cg, b = real cb\<rparr>"
  let ?pts = "replicate (w * h) ?c"
  obtain kk where kk: "cluster_count k (length ?pts) = Fin (real_of_int kk)" and "min k 3 \<le> kk"
    using cluster_count_finite [of k "length ?pts"] by blast
  with assms(4) have k2: "2 \<le> kk" by simp
  have f: "filter keep_sample (samplePixels (concat (replicate (w * h) [cr, cg, cb, ca])) w h 1) = ?pts"
    using assms(2) samplePixels_solid [OF assms(1), of w h cr cg cb] by simp
  have "rnd 0 * real (w * h) < real (w * h)" using assms(3,6) by simp
  moreover have "0 \<le> rnd 0 * real (w * h)" using assms(5) by simp
  ultimately have "nat (bitor0 (rnd 0 * real (w * h))) < w * h"
    by (simp add: bitor0_def floor_less_iff nat_less_iff)
  then have c0: "?pts ! nat (bitor0 (rnd 0 * real (length ?pts))) = ?c" by simp
  have "seed_loop ?pts kk rnd [new_center ?c] 1 = None"
    using k2 assms(7) by (intro seed_loop_diverges) (auto simp: min_dist2_own)
  with assms(3) c0 have "kmeansPP ?pts kk rnd = None"
    by (simp add: kmeansPP_def)
  then show ?thesis
    unfolding getDominantHexes_def Let_def f kk kmeansPP_num_Fin by simp
qed

lemma funpow_fixed: "f x = x \<Longrightarrow> (f ^^ n) x = x"
  by (induction n) simp_all

lemma funpow_settles: "f x = y \<Longrightarrow> f y = y \<Longrightarrow> 0 < n \<Longrightarrow> (f ^^ n) x = y"
  by (cases n) (simp_all add: funpow_swap1 funpow_fixed)

lemma getDominantHexes_via_kmeans:
  assumes "filter keep_sample (samplePixels pixels w h 1) = pts"
    and "real (length pts) \<le> 2 ^ 1023"
    and "min k (max 3 (int (length pts div 200))) = kk"
    and "kmeansPP pts kk rnd = Some (cs, n)"
  shows "getDominantHexes pixels w h k rnd = Some ([], n)"
  using assms(1,3,4) cluster_count_eq [OF assms(2), of k]
  by (simp add: getDominantHexes_def Let_def kmeansPP_num_Fin dedup_empty slice0_Nil)

text \<open>Two points, red and blue, two clusters: the first draw decides the order of the centres.\<close>

lemma kmeans_red_first:
  "kmeansPP [\<lparr>r = 255, g = 0, b = 0\<rparr>, \<lparr>r = 0, g = 0, b = 255\<rparr>] 2 (rnd_const (1 / 4))
     = Some ([\<lparr>r = 255, g = 0, b = 0, weight = 1\<rparr>, \<lparr>r = 0, g = 0, b = 255, weight = 1\<rparr>], 2)"
proof -
  let ?pts = "[\<lparr>r = 255, g = 0, b = 0\<rparr>, \<lparr>r = 0, g = 0, b = 255\<rparr>]"
  let ?rnd = "rnd_const (1 / 4)"
  let ?c0 = "\<lparr>r = 255, g = 0, b = 0, weight = 1\<rparr>"
  let ?c1 = "\<lparr>r = 0, g = 0, b = 255, weight = 1\<rparr>"
  have c0: "[new_center (?pts ! nat (bitor0 (?rnd 0 * real (length ?pts))))] = [?c0]"
    by code_simp
  have pk: "seed_pick ?pts ?rnd [?c0] 1 = Some 1" by code_simp
  have c1: "[?c0] @ [new_center (?pts ! 1)] = [?c0, ?c1]" by code_simp
  have "seed_loop ?pts 2 ?rnd [?c0] 1 = seed_loop ?pts 2 ?rnd ([?c0] @ [new_center (?pts ! 1)]) (Suc 1)"
    by (rule seed_push [OF _ pk]) simp
  also have "\<dots> = Some ([?c0, ?c1], 2)"
    unfolding c1 by (subst seed_done) simp_all
  finally have sl: "seed_loop ?pts 2 ?rnd [?c0] 1 = Some ([?c0, ?c1], 2)" .
  have "lloyd_iter ?pts [?c0, ?c1] = [?c0, ?c1]" by code_simp
  then have ll: "(lloyd_iter ?pts ^^ 8) [?c0, ?c1] = [?c0, ?c1]" by (rule funpow_fixed)
  show ?thesis unfolding kmeansPP_def c0 sl by (simp add: ll)
qed

lemma kmeans_blue_first:
  "kmeansPP [\<lparr>r = 255, g = 0, b = 0\<rparr>, \<lparr>r = 0, g = 0, b = 255\<rparr>] 2 (rnd_const (3 / 4))
     = Some ([\<lparr>r = 0, g = 0, b = 255, weight = 1\<rparr>, \<lparr>r = 255, g = 0, b = 0, weight = 1\<rparr>], 2)"
proof -
  let ?pts = "[\<lparr>r = 255, g = 0, b = 0\<rparr>, \<lparr>r = 0, g = 0, b = 255\<rparr>]"
  let ?rnd = "rnd_const (3 / 4)"
  let ?c0 = "\<lparr>r = 0, g = 0, b = 255, weight = 1\<rparr>"
  let ?c1 = "\<lparr>r = 255, g = 0, b = 0, weight = 1\<rparr>"
  have c0: "[new_center (?pts ! nat (bitor0 (?rnd 0 * real (length ?pts))))] = [?c0]"
    by code_simp
  have pk: "seed_pick ?pts ?rnd [?c0] 1 = Some 0" by code_simp
  have c1: "[?c0] @ [new_center (?pts ! 0)] = [?c0, ?c1]" by code_simp
  have "seed_loop ?pts 2 ?rnd [?c0] 1 = seed_loop ?pts 2 ?rnd ([?c0] @ [new_center (?pts ! 0)]) (Suc 1)"
    by (rule seed_push [OF _ pk]) simp
  also have "\<dots> = Some ([?c0, ?c1], 2)"
    unfolding c1 by (subst seed_done) simp_all
  finally have sl: "seed_loop ?pts 2 ?rnd [?c0] 1 = Some ([?c0, ?c1], 2)" .
  have "lloyd_iter ?pts [?c0, ?c1] = [?c0, ?c1]" by code_simp
  then have ll: "(lloyd_iter ?pts ^^ 8) [?c0, ?c1] = [?c0, ?c1]" by (rule funpow_fixed)
  show ?thesis unfolding kmeansPP_def c0 sl by (simp add: ll)
qed

text \<open>
  One pixel of colour \<open>#336699\<close>, two clusters. The second centre is pushed only by a draw
  of exactly 0.
\<close>

lemma kmeans_solid_zero_draws:
  "kmeansPP [\<lparr>r = 51, g = 102, b = 153\<rparr>] 2 (rnd_prefix [0, 0] u)
     = Some ([\<lparr>r = 51, g = 102, b = 153, weight = 1\<rparr>, \<lparr>r = 51, g = 102, b = 153, weight = 1\<rparr>], 2)"
proof -
  let ?pts = "[\<lparr>r = 51, g = 102, b = 153\<rparr>]"
  let ?rnd = "rnd_prefix [0, 0] u"
  let ?c = "\<lparr>r = 51, g = 102, b = 153, weight = 1\<rparr>"
  have r0: "?rnd 0 = 0" and r1: "?rnd 1 = 0" by (simp_all add: rnd_prefix_def)
  have c0: "[new_center (?pts ! nat (bitor0 (?rnd 0 * real (length ?pts))))] = [?c]"
    unfolding r0 by code_simp
  have pk: "seed_pick ?pts ?rnd [?c] 1 = Some 0"
    unfolding seed_pick_def r1 by code_simp
  have c1: "[?c] @ [new_center (?pts ! 0)] = [?c, ?c]" by code_simp
  have "seed_loop ?pts 2 ?rnd [?c] 1 = seed_loop ?pts 2 ?rnd ([?c] @ [new_center (?pts ! 0)]) (Suc 1)"
    by (rule seed_push [OF _ pk]) simp
  also have "\<dots> = Some ([?c, ?c], 2)"
    unfolding c1 by (subst seed_done) simp_all
  finally have sl: "seed_loop ?pts 2 ?rnd [?c] 1 = Some ([?c, ?c], 2)" .
  have "lloyd_iter ?pts [?c, ?c] = [?c, ?c]" by code_simp
  then have ll: "(lloyd_iter ?pts ^^ 8) [?c, ?c] = [?c, ?c]" by (rule funpow_fixed)
  show ?thesis unfolding kmeansPP_def c0 sl by (simp add: ll)
qed

lemma extract_solid_zero_draws:
  "getDominantHexes [51, 102, 153, 255] 1 1 2 (rnd_prefix [0, 0] u) = Some ([], 2)"
proof (rule getDominantHexes_via_kmeans)
  show "filter keep_sample (samplePixels [51, 102, 153, 255] 1 1 1) = [\<lparr>r = 51, g = 102, b = 153\<rparr>]"
    by code_simp
  show "real (length [\<lparr>r = 51, g = 102, b = 153\<rparr>]) \<le> 2 ^ 1023"
    by simp
  show "min 2 (max 3 (int (length [\<lparr>r = 51, g = 102, b = 153\<rparr>] div 200))) = 2"
    by simp
  show "kmeansPP [\<lparr>r = 51, g = 102, b = 153\<rparr>] 2 (rnd_prefix [0, 0] u)
     = Some ([\<lparr>r = 51, g = 102, b = 153, weight = 1\<rparr>, \<lparr>r = 51, g = 102, b = 153, weight = 1\<rparr>], 2)"
    by (rule kmeans_solid_zero_draws)
qed

lemma extract_solid_diverges:
  "getDominantHexes [51, 102, 153, 255] 1 1 2 (rnd_const (1 / 2)) = None"
proof -
  have k: "keep_sample \<lparr>r = real 51, g = real 102, b = real 153\<rparr>" by code_simp
  have "getDominantHexes (concat (replicate (1 * 1) [51, 102, 153, 255])) 1 1 2 (rnd_const (1 / 2)) = None"
    by (rule solid_kept_diverges [OF _ k]) (simp_all add: rnd_const_def)
  then show ?thesis by simp
qed

text \<open>One pixel of colour \<open>#336699\<close>, one cluster: no draw after the first.\<close>

lemma extract_solid_one_cluster:
  "getDominantHexes [51, 102, 153, 255] 1 1 1 (rnd_const (1 / 2)) = Some ([], 1)"
proof (rule getDominantHexes_via_kmeans)
  let ?pts = "[\<lparr>r = 51, g = 102, b = 153\<rparr>]"
  let ?c = "\<lparr>r = 51, g = 102, b = 153, weight = 1\<rparr>"
  show "filter keep_sample (samplePixels [51, 102, 153, 255] 1 1 1) = ?pts"
    by code_simp
  show "real (length ?pts) \<le> 2 ^ 1023"
    by simp
  show "min 1 (max 3 (int (length ?pts div 200))) = 1"
    by simp
  have c0: "[new_center (?pts ! nat (bitor0 (rnd_const (1 / 2) 0 * real (length ?pts))))] = [?c]"
    by code_simp
  have sl: "seed_loop ?pts 1 (rnd_const (1 / 2)) [?c] 1 = Some ([?c], 1)"
    by (rule seed_done) simp
  have "lloyd_iter ?pts [?c] = [?c]" by code_simp
  then have ll: "(lloyd_iter ?pts ^^ 8) [?c] = [?c]" by (rule funpow_fixed)
  show "kmeansPP ?pts 1 (rnd_const (1 / 2)) = Some ([?c], 1)"
    unfolding kmeansPP_def c0 sl by (simp add: ll)
qed

subsection \<open>The claims about the dominant-colour extractor\<close>

text \<open>
  C1. What the code does on a solid opaque image whose colour passes the noise filter (the
  colour \<open>#336699\<close> of the claim is one): a run that returns, returns the empty list, so no
  hex near the input colour and fewer than three entries, because the de-duplication filter
  keeps nothing (see C2); and with \<open>k\<close> at least 2 (the default is 10) the run does not
  return at all unless a call of \<open>Math.random()\<close> after the first returns exactly 0: every
  sample lies on the first centre, all distances are 0, and the seeding loop never pushes a
  second centre.
\<close>

theorem solid_kept_colour_yields_no_hex:
  "keep_sample \<lparr>r = real cr, g = real cg, b = real cb\<rparr> \<longrightarrow>
     (getDominantHexes (concat (replicate (w * h) [cr, cg, cb, 255])) w h k rnd = Some (res, n)
        \<longrightarrow> res = [])
     \<and> (0 < w * h \<and> 2 \<le> k \<and> 0 \<le> rnd 0 \<and> rnd 0 < 1 \<and> (\<forall>m\<ge>1. 0 < rnd m)
        \<longrightarrow> getDominantHexes (concat (replicate (w * h) [cr, cg, cb, 255])) w h k rnd = None)"
  using getDominantHexes_result [of "concat (replicate (w * h) [cr, cg, cb, 255])" w h k rnd res n]
    solid_kept_diverges [of 255 cr cg cb w h k rnd]
  by simp

theorem solid_kept_colour_yields_no_hex_witness:
  "keep_sample \<lparr>r = real 51, g = real 102, b = real 153\<rparr>
   \<and> getDominantHexes (concat (replicate (1 * 1) [51, 102, 153, 255])) 1 1 1 (rnd_const (1 / 2))
       = Some ([], 1)
   \<and> 0 < (1::nat) * 1 \<and> (2::int) \<le> 10 \<and> 0 \<le> rnd_const (1 / 2) 0 \<and> rnd_const (1 / 2) 0 < 1
   \<and> getDominantHexes (concat (replicate (1 * 1) [51, 102, 153, 255])) 1 1 10 (rnd_const (1 / 2))
       = None"
proof -
  have k: "keep_sample \<lparr>r = real 51, g = real 102, b = real 153\<rparr>" by code_simp
  have d: "\<forall>m\<ge>1. 0 < rnd_const (1 / 2) m" by (simp add: rnd_const_def)
  have one: "getDominantHexes (concat (replicate (1 * 1) [51, 102, 153, 255])) 1 1 1 (rnd_const (1 / 2))
       = Some ([], 1)"
    using extract_solid_one_cluster by simp
  from solid_kept_colour_yields_no_hex [of 51 102 153 1 1 10 "rnd_const (1 / 2)" "[]" 0] k d one
  show ?thesis by (simp add: rnd_const_def)
qed

text \<open>
  C2. What the code does: the filter keeps the entry at \<open>idx\<close> only if \<open>idx\<close> is the first
  index whose entry \<open>similarHex\<close> accepts, and \<open>similarHex(hex, hex)\<close> is false (the
  distance 0 is not greater than \<open>tol * tol\<close>), so no entry is ever kept: the list of
  hexes of the centres, sorted by weight, is de-duplicated to the empty list, and the hex
  of the heaviest cluster is not in the result.
\<close>

theorem dedup_keeps_nothing:
  "dedup (map rgbToHex (js_sort (\<lambda>x y. Some (weight y - weight x)) centers)) = []"
  by (rule dedup_empty)

text \<open>
  C3. When the noise filter removes every sample, \<open>getDominantHexes\<close> returns, and it
  returns the empty list, the empty marker. No stage divides by zero or produces \<open>NaN\<close>:
  the one division of the run is \<open>filtered.length / 200\<close>, whose divisor is not zero and
  whose value is the number 0; the cluster count computed from it is the number
  \<open>min(k, 3)\<close>; and \<open>kmeansPP\<close> leaves at its first line with no centre, before any call
  of \<open>Math.random()\<close> and before the one other division of the source, the mean
  \<open>s.r / s.w\<close> of the update step, is reached.
\<close>

theorem empty_sample_set_returns_empty:
  "filter keep_sample (samplePixels pixels w h 1) = [] \<Longrightarrow>
     Fin (real (length (filter keep_sample (samplePixels pixels w h 1)))) / Fin 200 = Fin 0
     \<and> cluster_count k (length (filter keep_sample (samplePixels pixels w h 1)))
         = Fin (real_of_int (min k 3))
     \<and> kmeansPP_num (filter keep_sample (samplePixels pixels w h 1))
         (cluster_count k (length (filter keep_sample (samplePixels pixels w h 1)))) rnd
         = Some ([], 0)
     \<and> getDominantHexes pixels w h k rnd = Some ([], 0)"
proof -
  assume e: "filter keep_sample (samplePixels pixels w h 1) = []"
  have q: "Fin (real (0::nat)) / Fin 200 = Fin 0"
    using ovf_fits [of 0] by (simp add: divide_num_def)
  have c: "cluster_count k 0 = Fin (real_of_int (min k 3))"
    using cluster_count_eq [of 0 k] by simp
  show ?thesis
    unfolding e using q c getDominantHexes_empty [OF e, of k rnd] by (simp add: kmeansPP_num_Nil)
qed

theorem empty_sample_set_returns_empty_witness:
  "filter keep_sample (samplePixels [255, 255, 255, 255, 0, 0, 0, 255] 2 1 1) = []
   \<and> cluster_count 5 (length (filter keep_sample (samplePixels [255, 255, 255, 255, 0, 0, 0, 255] 2 1 1)))
       = Fin (real_of_int (min 5 3))
   \<and> getDominantHexes [255, 255, 255, 255, 0, 0, 0, 255] 2 1 5 (rnd_const (1 / 4)) = Some ([], 0)"
proof -
  have f: "filter keep_sample (samplePixels [255, 255, 255, 255, 0, 0, 0, 255] 2 1 1) = []"
    by code_simp
  from f empty_sample_set_returns_empty [OF f, of 5 "rnd_const (1 / 4)"] show ?thesis by simp
qed

text \<open>
  C7, as the claim states it, fails for the dominant-colour extractor: on the same points
  and the same \<open>k\<close> the centres of \<open>kmeansPP\<close> come in a different order for different
  values of \<open>Math.random()\<close>, and on the same one-pixel image with \<open>k = 2\<close> one run of
  \<open>getDominantHexes\<close> returns and another never does.
\<close>

theorem random_seeding_counterexample:
  "kmeansPP [\<lparr>r = 255, g = 0, b = 0\<rparr>, \<lparr>r = 0, g = 0, b = 255\<rparr>] 2 (rnd_const (1 / 4))
     = Some ([\<lparr>r = 255, g = 0, b = 0, weight = 1\<rparr>, \<lparr>r = 0, g = 0, b = 255, weight = 1\<rparr>], 2)
   \<and> kmeansPP [\<lparr>r = 255, g = 0, b = 0\<rparr>, \<lparr>r = 0, g = 0, b = 255\<rparr>] 2 (rnd_const (3 / 4))
     = Some ([\<lparr>r = 0, g = 0, b = 255, weight = 1\<rparr>, \<lparr>r = 255, g = 0, b = 0, weight = 1\<rparr>], 2)
   \<and> getDominantHexes [51, 102, 153, 255] 1 1 2 (rnd_prefix [0, 0] (1 / 2)) = Some ([], 2)
   \<and> getDominantHexes [51, 102, 153, 255] 1 1 2 (rnd_const (1 / 2)) = None"
  using kmeans_red_first kmeans_blue_first extract_solid_zero_draws [of "1 / 2"] extract_solid_diverges
  by simp

text \<open>
  C7, amended. The stages of the edge extractor are functions of their inputs and
  parameters alone (the source reads no state and draws no random number there). The
  dominant-colour extractor is determined by its input, its parameter and the values that
  its calls of \<open>Math.random()\<close> return: a run that returns after \<open>n\<close> calls is repeated
  exactly by every run whose first \<open>n\<close> calls return the same values.
\<close>

theorem extract_determined_by_draws:
  "getDominantHexes pixels w h k rnd = Some (res, n) \<Longrightarrow> \<forall>i<n. rnd' i = rnd i \<Longrightarrow>
     getDominantHexes pixels w h k rnd' = Some (res, n)"
  by (rule getDominantHexes_frame)

theorem extract_determined_by_draws_witness:
  "getDominantHexes [51, 102, 153, 255] 1 1 2 (rnd_prefix [0, 0] (1 / 2)) = Some ([], 2)
   \<and> rnd_prefix [0, 0] (3 / 4) 0 = rnd_prefix [0, 0] (1 / 2) 0
   \<and> rnd_prefix [0, 0] (3 / 4) 1 = rnd_prefix [0, 0] (1 / 2) 1
   \<and> getDominantHexes [51, 102, 153, 255] 1 1 2 (rnd_prefix [0, 0] (3 / 4)) = Some ([], 2)"
proof -
  have a: "\<forall>i<2. rnd_prefix [0, 0] (3 / 4) i = rnd_prefix [0, 0] (1 / 2) i"
    by (simp add: rnd_prefix_def)
  from extract_determined_by_draws [OF extract_solid_zero_draws [of "1 / 2"] a] a
    extract_solid_zero_draws [of "1 / 2"]
  show ?thesis by simp
qed

section \<open>Properties of the colour distances and the matchers\<close>

subsection \<open>The two distances\<close>

lemma hypot_nonneg: "0 \<le> hypot x y"
  by (simp add: hypot_def)

lemma radicand_nonneg:
  fixes A B C Rt :: real
  assumes "\<bar>Rt\<bar> \<le> 2"
  shows "0 \<le> A ^ 2 + B ^ 2 + C ^ 2 + Rt * B * C"
proof -
  have "\<bar>Rt * B * C\<bar> \<le> 2 * (\<bar>B\<bar> * \<bar>C\<bar>)"
    using assms by (simp add: abs_mult mult_right_mono mult.assoc)
  moreover have "2 * (\<bar>B\<bar> * \<bar>C\<bar>) \<le> B ^ 2 + C ^ 2"
    using sum_squares_bound [of "\<bar>B\<bar>" "\<bar>C\<bar>"] by (simp add: power2_eq_square mult.assoc)
  ultimately have "- (B ^ 2 + C ^ 2) \<le> Rt * B * C" by linarith
  moreover have "0 \<le> A ^ 2" by simp
  ultimately show ?thesis by linarith
qed

lemma rotation_bound:
  fixes c t :: real
  assumes "0 \<le> c"
  shows "\<bar>- (2 * sqrt (c ^ 7 / (c ^ 7 + 25 ^ 7))) * sin t\<bar> \<le> 2"
proof -
  have p: "0 \<le> c ^ 7" using assms by simp
  then have pos: "0 < c ^ 7 + 25 ^ 7" by (intro add_nonneg_pos) simp_all
  then have "c ^ 7 / (c ^ 7 + 25 ^ 7) \<le> 1" by (simp add: pos_divide_le_eq)
  moreover have "0 \<le> c ^ 7 / (c ^ 7 + 25 ^ 7)" using p by simp
  ultimately have s: "0 \<le> sqrt (c ^ 7 / (c ^ 7 + 25 ^ 7))" "sqrt (c ^ 7 / (c ^ 7 + 25 ^ 7)) \<le> 1"
    by simp_all
  have "\<bar>- (2 * sqrt (c ^ 7 / (c ^ 7 + 25 ^ 7))) * sin t\<bar>
      = 2 * sqrt (c ^ 7 / (c ^ 7 + 25 ^ 7)) * \<bar>sin t\<bar>"
    using s by (simp add: abs_mult)
  also have "\<dots> \<le> 2 * 1 * 1"
    using s by (intro mult_mono) simp_all
  finally show ?thesis by simp
qed

lemma deltaE76_self: "deltaE76 x x = 0"
  by (simp add: deltaE76_def split: prod.splits)

lemma deltaE76_nonneg: "0 \<le> deltaE76 x y"
  by (simp add: deltaE76_def Let_def split: prod.splits)

lemma deltaE_self: "deltaE x x = 0"
  by (simp add: deltaE_def Let_def split: prod.splits)

lemma deltaE_nonneg: "0 \<le> deltaE x y"
proof -
  obtain L1 a1 b1 where x: "x = (L1, a1, b1)" by (cases x) auto
  obtain L2 a2 b2 where y: "y = (L2, a2, b2)" by (cases y) auto
  show ?thesis
    unfolding x y deltaE_def Let_def prod.case
    by (intro real_sqrt_ge_zero radicand_nonneg rotation_bound divide_nonneg_nonneg add_nonneg_nonneg
        hypot_nonneg) simp
qed

subsection \<open>The CIEDE2000 distance with overflow\<close>

text \<open>
  With a chroma of \<open>2^150\<close> or more (and within the range of doubles) \<open>Math.pow(avgC, 7)\<close>
  is \<open>Infinity\<close> and the distance of two colours of that chroma is \<open>NaN\<close>.
\<close>

lemma deltaE_js_overflow:
  assumes lo: "2 ^ 150 \<le> a" and hi: "a \<le> 2 ^ 1000"
  shows "deltaE_js (L1, a, 0) (L2, a, 0) = NaN"
proof -
  have p: "(0::real) < 2 ^ 150" by simp
  with lo have a0: "0 \<le> a" by linarith
  have "(2::real) ^ 1000 \<le> 2 ^ 1022" by (rule power_increasing) simp_all
  with hi have a1: "a \<le> 2 ^ 1022" by linarith
  have "(2::real) ^ 1023 = 2 * 2 ^ 1022" using power_Suc [of "2::real" 1022] by simp
  with a0 a1 have f2: "ovf a = Fin a" and f3: "ovf (a + a) = Fin (a + a)"
    by (simp_all add: ovf_fits)
  have f1: "hypot a 0 = a" using a0 by (simp add: hypot_def)
  have "(2::real) ^ 1024 \<le> 2 ^ 1050" by (rule power_increasing) simp_all
  also have "\<dots> = (2 ^ 150) ^ 7" by (simp add: power_mult [symmetric])
  also have "\<dots> \<le> a ^ 7" using lo by (intro power_mono) simp_all
  finally have f4: "ovf (a ^ 7) = PInf" by (rule ovf_over)
  have "(25::real) ^ 7 \<le> 2 ^ 35" by simp
  also have "(2::real) ^ 35 \<le> 2 ^ 1023" by (rule power_increasing) simp_all
  finally have "\<bar>(25::real) ^ 7\<bar> \<le> 2 ^ 1023" by simp
  then have f5: "ovf (25 ^ 7) = Fin (25 ^ 7)" by (rule ovf_fits)
  have avgC: "(nhypot (Fin a) (Fin 0) + nhypot (Fin a) (Fin 0)) / Fin 2 = Fin a"
    using f1 f2 f3 by (simp add: num_ops)
  have G: "Fin 0.5 * (Fin 1 - nsqrt (npow (Fin a) 7 / (npow (Fin a) 7 + npow (Fin 25) 7))) = NaN"
    using f4 f5 by (simp add: num_ops del: power_numeral)
  show ?thesis
    unfolding deltaE_js_def prod.case Let_def avgC G
    by (simp add: num_ops)
qed

text \<open>
  Evaluation of an expression on \<open>num\<close> whose operands are finite and bounded: each rule
  gives the finite value of one operation and a bound \<open>10^k\<close> for it, which must stay
  within \<open>10^300\<close>, below the overflow bound.
\<close>

lemma ovf_cap: "\<bar>v\<bar> \<le> 10 ^ k \<Longrightarrow> k \<le> 300 \<Longrightarrow> ovf v = Fin v"
proof (rule ovf_fits)
  assume a: "\<bar>v\<bar> \<le> 10 ^ k" and k: "k \<le> 300"
  have "(10::real) ^ k \<le> 10 ^ 300" using k by (intro power_increasing) simp_all
  also have "\<dots> = (10 ^ 3) ^ 100" by (simp add: power_mult [symmetric])
  also have "\<dots> \<le> (2 ^ 10) ^ 100" by (intro power_mono) simp_all
  also have "\<dots> = 2 ^ 1000" by (simp add: power_mult [symmetric])
  also have "\<dots> \<le> 2 ^ 1023" by (intro power_increasing) simp_all
  finally show "\<bar>v\<bar> \<le> 2 ^ 1023" using a by linarith
qed

lemma pow10_mono: "j \<le> m \<Longrightarrow> (10::real) ^ j \<le> 10 ^ m"
  by (rule power_increasing) simp_all

lemma ev_eq: "ev n v k \<Longrightarrow> n = Fin v"
  by (simp add: ev_def)

lemma ev_Fin: "ev n v k \<Longrightarrow> ev (Fin v) v k"
  by (simp add: ev_def)

lemma ev_tight: "ev n v j \<Longrightarrow> \<bar>v\<bar> \<le> 10 ^ m \<Longrightarrow> ev n v m"
  by (simp add: ev_def)

lemma ev_mono: "ev n v j \<Longrightarrow> j \<le> m \<Longrightarrow> ev n v m"
proof -
  assume e: "ev n v j" and "j \<le> m"
  then have "(10::real) ^ j \<le> 10 ^ m" by (intro pow10_mono)
  moreover from e have "\<bar>v\<bar> \<le> 10 ^ j" by (simp add: ev_def)
  ultimately have "\<bar>v\<bar> \<le> 10 ^ m" by linarith
  with e show ?thesis by (simp add: ev_def)
qed

lemma ev_lit: "\<bar>c\<bar> \<le> 1000 \<Longrightarrow> ev (Fin c) c 3"
  by (simp add: ev_def)

lemma ev_pi: "ev (Fin pi) pi 1"
  using pi_less_4 pi_gt_zero by (simp add: ev_def)

lemma sum_bound:
  fixes x y :: real
  assumes "\<bar>x\<bar> \<le> 10 ^ j" and "\<bar>y\<bar> \<le> 10 ^ k"
  shows "\<bar>x\<bar> + \<bar>y\<bar> \<le> 10 ^ Suc (max j k)"
proof -
  have "(10::real) ^ j \<le> 10 ^ max j k" "(10::real) ^ k \<le> 10 ^ max j k"
    by (simp_all add: pow10_mono)
  moreover have "(0::real) \<le> 10 ^ max j k" by simp
  moreover have "(10::real) ^ Suc (max j k) = 10 * 10 ^ max j k" by simp
  ultimately show ?thesis using assms by linarith
qed

lemma ev_add:
  assumes "ev u x j" and "ev v y k" and "Suc (max j k) \<le> 300"
  shows "ev (u + v) (x + y) (Suc (max j k))"
proof -
  from assms have b: "\<bar>x + y\<bar> \<le> 10 ^ Suc (max j k)"
    using sum_bound [of x j y k] by (simp add: ev_def)
  with assms show ?thesis
    by (simp add: ev_def plus_num_def ovf_cap [OF b])
qed

lemma ev_neg: "ev u x j \<Longrightarrow> ev (- u) (- x) j"
  by (simp add: ev_def uminus_num_def)

lemma ev_sub:
  assumes "ev u x j" and "ev v y k" and "Suc (max j k) \<le> 300"
  shows "ev (u - v) (x - y) (Suc (max j k))"
proof -
  from assms have b: "\<bar>x + - y\<bar> \<le> 10 ^ Suc (max j k)"
    using sum_bound [of x j y k] by (simp add: ev_def)
  with assms show ?thesis
    using ovf_cap [OF b] by (simp add: ev_def minus_num_def)
qed

lemma ev_mul:
  assumes "ev u x j" and "ev v y k" and "j + k \<le> 300"
  shows "ev (u * v) (x * y) (j + k)"
proof -
  from assms have "\<bar>x\<bar> * \<bar>y\<bar> \<le> 10 ^ j * 10 ^ k"
    by (intro mult_mono) (simp_all add: ev_def)
  then have b: "\<bar>x * y\<bar> \<le> 10 ^ (j + k)" by (simp add: abs_mult power_add)
  with assms show ?thesis
    by (simp add: ev_def times_num_def ovf_cap [OF b])
qed

lemma ev_div:
  assumes "ev u x j" and "ev v y k" and "1 \<le> \<bar>y\<bar>" and "j \<le> 300"
  shows "ev (u / v) (x / y) j"
proof -
  from assms(3) have y: "y \<noteq> 0" by auto
  have "\<bar>x / y\<bar> = \<bar>x\<bar> / \<bar>y\<bar>" by simp
  also have "\<dots> \<le> \<bar>x\<bar> / 1" using assms(3) by (intro divide_left_mono) simp_all
  finally have b: "\<bar>x / y\<bar> \<le> 10 ^ j" using assms(1) by (simp add: ev_def)
  with assms y show ?thesis
    by (simp add: ev_def divide_num_def ovf_cap [OF b])
qed

lemma ev_abs: "ev u x j \<Longrightarrow> ev \<bar>u\<bar> \<bar>x\<bar> j"
  by (simp add: ev_def abs_num_def)

lemma ev_sqrt:
  assumes "ev u x j" and "0 \<le> x"
  shows "ev (nsqrt u) (sqrt x) j"
proof -
  have "sqrt x \<le> 10 ^ j"
  proof (cases "x \<le> 1")
    case True
    then have "sqrt x \<le> 1" by simp
    also have "(1::real) \<le> 10 ^ j" by simp
    finally show ?thesis .
  next
    case False
    then have s: "1 \<le> sqrt x" by simp
    then have "sqrt x * 1 \<le> sqrt x * sqrt x" by (intro mult_left_mono) simp_all
    then have "sqrt x \<le> x" using assms(2) by simp
    with assms show ?thesis by (simp add: ev_def)
  qed
  moreover have "0 \<le> sqrt x" using assms(2) by simp
  ultimately have "\<bar>sqrt x\<bar> \<le> 10 ^ j" by simp
  with assms show ?thesis by (simp add: ev_def)
qed

lemma ev_pow:
  assumes "ev u x j" and "n * j \<le> 300"
  shows "ev (npow u n) (x ^ n) (n * j)"
proof -
  from assms(1) have "\<bar>x\<bar> ^ n \<le> (10 ^ j) ^ n" by (intro power_mono) (simp_all add: ev_def)
  then have b: "\<bar>x ^ n\<bar> \<le> 10 ^ (n * j)" by (simp add: power_abs power_mult mult.commute)
  with assms show ?thesis
    by (simp add: ev_def ovf_cap [OF b])
qed

lemma hypot_le: "hypot x y \<le> \<bar>x\<bar> + \<bar>y\<bar>"
  unfolding hypot_def power2_eq_square [symmetric] by (rule sqrt_sum_squares_le_sum_abs)

lemma ev_hypot:
  assumes "ev u x j" and "ev v y k" and "Suc (max j k) \<le> 300"
  shows "ev (nhypot u v) (hypot x y) (Suc (max j k))"
proof -
  have "0 \<le> hypot x y" by (rule hypot_nonneg)
  moreover from assms have "hypot x y \<le> 10 ^ Suc (max j k)"
    using sum_bound [of x j y k] hypot_le [of x y] by (simp add: ev_def)
  ultimately have b: "\<bar>hypot x y\<bar> \<le> 10 ^ Suc (max j k)" by simp
  with assms show ?thesis
    by (simp add: ev_def ovf_cap [OF b])
qed

lemma atan2_bound: "\<bar>atan2 y x\<bar> \<le> 10"
proof -
  have "- (pi / 2) < arctan (y / x)" "arctan (y / x) < pi / 2"
    using arctan_bounded [of "y / x"] by simp_all
  moreover have "pi < 4" "0 < pi" by (rule pi_less_4, rule pi_gt_zero)
  ultimately show ?thesis unfolding atan2_def by (simp add: abs_le_iff)
qed

lemma ev_atan2: "ev u y j \<Longrightarrow> ev v x k \<Longrightarrow> ev (natan2 u v) (atan2 y x) 1"
  using atan2_bound [of y x] by (simp add: ev_def)

lemma ev_sin: "ev u x j \<Longrightarrow> ev (nsin u) (sin x) 0"
  by (simp add: ev_def)

lemma ev_cos: "ev u x j \<Longrightarrow> ev (ncos u) (cos x) 0"
  by (simp add: ev_def)

lemma ev_exp:
  assumes "ev u x j" and "x \<le> 0"
  shows "ev (nexp u) (exp x) 0"
proof -
  from assms(2) have b: "\<bar>exp x\<bar> \<le> 10 ^ 0" by simp
  with assms show ?thesis by (simp add: ev_def ovf_cap [OF b])
qed

lemma ev_if:
  "c = c' \<Longrightarrow> ev A x j \<Longrightarrow> ev B y k \<Longrightarrow> ev (if c then A else B) (if c' then x else y) (max j k)"
proof -
  assume c: "c = c'" and e: "ev A x j" "ev B y k"
  have "ev A x (max j k)" "ev B y (max j k)" by (rule ev_mono [OF e(1)], simp, rule ev_mono [OF e(2)], simp)
  with c show ?thesis by simp
qed

lemmas evs = ev_if ev_add ev_sub ev_mul ev_div ev_neg ev_abs ev_sqrt ev_pow ev_hypot ev_atan2
  ev_sin ev_cos ev_exp ev_pi ev_lit


text \<open>
  For Lab colours in range every line of \<open>deltaE\<close> evaluates to a finite number, the one
  that the real-valued \<open>deltaE\<close> gives.
\<close>

lemma ratio7:
  fixes c :: real
  assumes "0 \<le> c"
  shows "1 \<le> \<bar>c ^ 7 + 25 ^ 7\<bar>" and "0 \<le> c ^ 7 / (c ^ 7 + 25 ^ 7)"
    and "sqrt (c ^ 7 / (c ^ 7 + 25 ^ 7)) \<le> 1" and "0 \<le> sqrt (c ^ 7 / (c ^ 7 + 25 ^ 7))"
proof -
  have p: "0 \<le> c ^ 7" using assms by simp
  then have pos: "0 < c ^ 7 + 25 ^ 7" by (intro add_nonneg_pos) simp_all
  from p show "1 \<le> \<bar>c ^ 7 + 25 ^ 7\<bar>" by simp
  from p show "0 \<le> c ^ 7 / (c ^ 7 + 25 ^ 7)" by simp
  from p show "0 \<le> sqrt (c ^ 7 / (c ^ 7 + 25 ^ 7))" by simp
  from pos have "c ^ 7 / (c ^ 7 + 25 ^ 7) \<le> 1" by (simp add: pos_divide_le_eq)
  then show "sqrt (c ^ 7 / (c ^ 7 + 25 ^ 7)) \<le> 1" by simp
qed

lemma half_bound: "0 \<le> s \<Longrightarrow> s \<le> 1 \<Longrightarrow> \<bar>0.5 * (1 - s)\<bar> \<le> 10 ^ 0" for s :: real
  by (simp add: abs_le_iff)

lemma twice_bound: "0 \<le> s \<Longrightarrow> s \<le> 1 \<Longrightarrow> \<bar>2 * s\<bar> \<le> 10 ^ 1" for s :: real
  by (simp add: abs_le_iff)

lemma T_bound:
  fixes c1 c2 c3 c4 :: real
  assumes "c1 \<le> 1" and "- 1 \<le> c2" and "- 1 \<le> c3" and "c4 \<le> 1"
  shows "0 \<le> 1 - 0.17 * c1 + 0.24 * c2 + 0.32 * c3 - 0.20 * c4"
  using assms by simp

lemma deltaE_js_in_range:
  assumes r1: "in_lab (L1, a1, b1)" and r2: "in_lab (L2, a2, b2)"
  shows "deltaE_js (L1, a1, b1) (L2, a2, b2) = Fin (deltaE (L1, a1, b1) (L2, a2, b2))"
proof -
  from r1 r2 have iL1: "ev (Fin L1) L1 36" and ia1: "ev (Fin a1) a1 36" and ib1: "ev (Fin b1) b1 36"
    and iL2: "ev (Fin L2) L2 36" and ia2: "ev (Fin a2) a2 36" and ib2: "ev (Fin b2) b2 36"
    by (simp_all add: in_lab_def ev_def)
  define avgLp where "avgLp = (L1 + L2) / 2"
  define C1 where "C1 = hypot a1 b1"
  define C2 where "C2 = hypot a2 b2"
  define avgC where "avgC = (C1 + C2) / 2"
  define G where "G = 0.5 * (1 - sqrt (avgC ^ 7 / (avgC ^ 7 + 25 ^ 7)))"
  define a1p where "a1p = (1 + G) * a1"
  define a2p where "a2p = (1 + G) * a2"
  define C1p where "C1p = hypot a1p b1"
  define C2p where "C2p = hypot a2p b2"
  define avgCp where "avgCp = (C1p + C2p) / 2"
  define h1p where "h1p = atan2 b1 a1p"
  define h2p where "h2p = atan2 b2 a2p"
  define H1p where "H1p = (if h1p \<ge> 0 then h1p else h1p + 2 * pi)"
  define H2p where "H2p = (if h2p \<ge> 0 then h2p else h2p + 2 * pi)"
  define dLp where "dLp = L2 - L1"
  define dCp where "dCp = C2p - C1p"
  define dhp0 where "dhp0 = H2p - H1p"
  define dhp1 where "dhp1 = (if dhp0 > pi then dhp0 - 2 * pi else dhp0)"
  define dhp where "dhp = (if dhp1 < - pi then dhp1 + 2 * pi else dhp1)"
  define dHp where "dHp = 2 * sqrt (C1p * C2p) * sin (dhp / 2)"
  define avgHp where
    "avgHp = (if \<bar>H1p - H2p\<bar> > pi then (H1p + H2p + 2 * pi) / 2 else (H1p + H2p) / 2)"
  define T where
    "T = 1 - 0.17 * cos (avgHp - pi / 6) + 0.24 * cos (2 * avgHp)
           + 0.32 * cos (3 * avgHp + pi / 30) - 0.20 * cos (4 * avgHp - (63 * pi) / 180)"
  define Sl where "Sl = 1 + (0.015 * (avgLp - 50) ^ 2) / sqrt (20 + (avgLp - 50) ^ 2)"
  define Sc where "Sc = 1 + 0.045 * avgCp"
  define Sh where "Sh = 1 + 0.015 * avgCp * T"
  define dt where "dt = (30 * pi) / 180 * exp (- (((avgHp * 180 / pi - 275) / 25) ^ 2))"
  define Rc where "Rc = 2 * sqrt (avgCp ^ 7 / (avgCp ^ 7 + 25 ^ 7))"
  define Rt where "Rt = - Rc * sin (2 * dt)"
  define res where
    "res = sqrt ((dLp / Sl) ^ 2 + (dCp / Sc) ^ 2 + (dHp / Sh) ^ 2 + Rt * (dCp / Sc) * (dHp / Sh))"
  note defs = avgLp_def C1_def C2_def avgC_def G_def a1p_def a2p_def C1p_def C2p_def avgCp_def
    h1p_def h2p_def H1p_def H2p_def dLp_def dCp_def dhp0_def dhp1_def dhp_def dHp_def avgHp_def
    T_def Sl_def Sc_def Sh_def dt_def Rc_def Rt_def res_def

  have pi1: "1 \<le> \<bar>pi\<bar>" using pi_ge_two by simp

  have e_avgLp: "ev ((Fin L1 + Fin L2) / Fin 2) avgLp 37"
    unfolding avgLp_def by (rule ev_mono, (rule iL1 iL2 evs | simp)+)
  have e_C1: "ev (nhypot (Fin a1) (Fin b1)) C1 37"
    unfolding C1_def by (rule ev_mono, (rule ia1 ib1 evs | simp)+)
  have e_C2: "ev (nhypot (Fin a2) (Fin b2)) C2 37"
    unfolding C2_def by (rule ev_mono, (rule ia2 ib2 evs | simp)+)
  note iC1 = ev_Fin [OF e_C1] and iC2 = ev_Fin [OF e_C2]
  have e_avgC: "ev ((Fin C1 + Fin C2) / Fin 2) avgC 38"
    unfolding avgC_def by (rule ev_mono, (rule iC1 iC2 evs | simp)+)
  note iavgC = ev_Fin [OF e_avgC]
  have avgC0: "0 \<le> avgC" by (simp add: avgC_def C1_def C2_def hypot_nonneg)
  have G_bound: "\<bar>G\<bar> \<le> 10 ^ 0"
    unfolding G_def by (rule half_bound [OF ratio7(4) [OF avgC0] ratio7(3) [OF avgC0]])
  have e_G: "ev (Fin 0.5 * (Fin 1 - nsqrt (npow (Fin avgC) 7 / (npow (Fin avgC) 7 + npow (Fin 25) 7)))) G 0"
    apply (rule ev_tight [OF _ G_bound])
    unfolding G_def
    apply ((rule iavgC evs ratio7 [OF avgC0] | simp)+)
    done
  note iG = ev_Fin [OF e_G]
  have e_a1p: "ev ((Fin 1 + Fin G) * Fin a1) a1p 40"
    unfolding a1p_def by (rule ev_mono, (rule iG ia1 evs | simp)+)
  have e_a2p: "ev ((Fin 1 + Fin G) * Fin a2) a2p 40"
    unfolding a2p_def by (rule ev_mono, (rule iG ia2 evs | simp)+)
  note ia1p = ev_Fin [OF e_a1p] and ia2p = ev_Fin [OF e_a2p]
  have e_C1p: "ev (nhypot (Fin a1p) (Fin b1)) C1p 41"
    unfolding C1p_def by (rule ev_mono, (rule ia1p ib1 evs | simp)+)
  have e_C2p: "ev (nhypot (Fin a2p) (Fin b2)) C2p 41"
    unfolding C2p_def by (rule ev_mono, (rule ia2p ib2 evs | simp)+)
  note iC1p = ev_Fin [OF e_C1p] and iC2p = ev_Fin [OF e_C2p]
  have C1p0: "0 \<le> C1p" and C2p0: "0 \<le> C2p" by (simp_all add: C1p_def C2p_def hypot_nonneg)
  have e_avgCp: "ev ((Fin C1p + Fin C2p) / Fin 2) avgCp 42"
    unfolding avgCp_def by (rule ev_mono, (rule iC1p iC2p evs | simp)+)
  note iavgCp = ev_Fin [OF e_avgCp]
  have avgCp0: "0 \<le> avgCp" using C1p0 C2p0 by (simp add: avgCp_def)
  have e_h1p: "ev (natan2 (Fin b1) (Fin a1p)) h1p 1"
    unfolding h1p_def by (rule ev_atan2 [OF ib1 ia1p])
  have e_h2p: "ev (natan2 (Fin b2) (Fin a2p)) h2p 1"
    unfolding h2p_def by (rule ev_atan2 [OF ib2 ia2p])
  note ih1p = ev_Fin [OF e_h1p] and ih2p = ev_Fin [OF e_h2p]
  have e_H1p: "ev (if Fin h1p \<ge> Fin 0 then Fin h1p else Fin h1p + Fin 2 * Fin pi) H1p 5"
    unfolding H1p_def by (rule ev_mono, (rule ih1p evs | simp)+)
  have e_H2p: "ev (if Fin h2p \<ge> Fin 0 then Fin h2p else Fin h2p + Fin 2 * Fin pi) H2p 5"
    unfolding H2p_def by (rule ev_mono, (rule ih2p evs | simp)+)
  note iH1p = ev_Fin [OF e_H1p] and iH2p = ev_Fin [OF e_H2p]
  have e_dLp: "ev (Fin L2 - Fin L1) dLp 37"
    unfolding dLp_def by (rule ev_mono, (rule iL1 iL2 evs | simp)+)
  have e_dCp: "ev (Fin C2p - Fin C1p) dCp 42"
    unfolding dCp_def by (rule ev_mono, (rule iC1p iC2p evs | simp)+)
  note idLp = ev_Fin [OF e_dLp] and idCp = ev_Fin [OF e_dCp]
  have e_dhp0: "ev (Fin H2p - Fin H1p) dhp0 6"
    unfolding dhp0_def by (rule ev_mono, (rule iH1p iH2p evs | simp)+)
  note idhp0 = ev_Fin [OF e_dhp0]
  have e_dhp1: "ev (if Fin dhp0 > Fin pi then Fin dhp0 - Fin 2 * Fin pi else Fin dhp0) dhp1 7"
    unfolding dhp1_def by (rule ev_mono, (rule idhp0 evs | simp)+)
  note idhp1 = ev_Fin [OF e_dhp1]
  have e_dhp: "ev (if Fin dhp1 < - Fin pi then Fin dhp1 + Fin 2 * Fin pi else Fin dhp1) dhp 8"
    unfolding dhp_def by (rule ev_mono, (rule idhp1 evs | simp)+)
  note idhp = ev_Fin [OF e_dhp]
  have CC0: "0 \<le> C1p * C2p" using C1p0 C2p0 by simp
  have e_dHp: "ev (Fin 2 * nsqrt (Fin C1p * Fin C2p) * nsin (Fin dhp / Fin 2)) dHp 85"
    unfolding dHp_def
    by (rule ev_mono, (rule iC1p iC2p idhp evs CC0 | simp)+)
  note idHp = ev_Fin [OF e_dHp]
  have e_ad: "ev \<bar>Fin H1p - Fin H2p\<bar> \<bar>H1p - H2p\<bar> 6"
    by (rule ev_mono, (rule iH1p iH2p evs | simp)+)
  have e_avgHp: "ev (if \<bar>Fin H1p - Fin H2p\<bar> > Fin pi then (Fin H1p + Fin H2p + Fin 2 * Fin pi) / Fin 2
                     else (Fin H1p + Fin H2p) / Fin 2) avgHp 7"
    unfolding avgHp_def by (rule ev_mono, (rule iH1p iH2p evs | simp add: ev_eq [OF e_ad])+)
  note iavgHp = ev_Fin [OF e_avgHp]
  have e_T: "ev (Fin 1 - Fin 0.17 * ncos (Fin avgHp - Fin pi / Fin 6) + Fin 0.24 * ncos (Fin 2 * Fin avgHp)
                  + Fin 0.32 * ncos (Fin 3 * Fin avgHp + Fin pi / Fin 30)
                  - Fin 0.20 * ncos (Fin 4 * Fin avgHp - (Fin 63 * Fin pi) / Fin 180)) T 7"
    unfolding T_def by (rule ev_mono, (rule iavgHp evs | simp)+)
  note iT = ev_Fin [OF e_T]
  have T0: "0 \<le> T"
    unfolding T_def by (rule T_bound) simp_all
  have p0: "0 \<le> (avgLp - 50) ^ 2" by simp
  then have s1: "1 \<le> \<bar>sqrt (20 + (avgLp - 50) ^ 2)\<bar>" and s0: "0 \<le> 20 + (avgLp - 50) ^ 2"
    by simp_all
  have e_Sl: "ev (Fin 1 + (Fin 0.015 * npow (Fin avgLp - Fin 50) 2)
                   / nsqrt (Fin 20 + npow (Fin avgLp - Fin 50) 2)) Sl 80"
    unfolding Sl_def
    by (rule ev_mono, (rule ev_Fin [OF e_avgLp] evs s1 s0 | simp)+)
  note iSl = ev_Fin [OF e_Sl]
  have Sl1: "1 \<le> \<bar>Sl\<bar>"
  proof -
    have "0 \<le> (0.015 * (avgLp - 50) ^ 2) / sqrt (20 + (avgLp - 50) ^ 2)"
      by (intro divide_nonneg_nonneg mult_nonneg_nonneg) simp_all
    then show ?thesis unfolding Sl_def by linarith
  qed
  have e_Sc: "ev (Fin 1 + Fin 0.045 * Fin avgCp) Sc 46"
    unfolding Sc_def by (rule ev_mono, (rule iavgCp evs | simp)+)
  note iSc = ev_Fin [OF e_Sc]
  have Sc1: "1 \<le> \<bar>Sc\<bar>" using avgCp0 by (simp add: Sc_def)
  have e_Sh: "ev (Fin 1 + Fin 0.015 * Fin avgCp * Fin T) Sh 53"
    unfolding Sh_def by (rule ev_mono, (rule iavgCp iT evs | simp)+)
  note iSh = ev_Fin [OF e_Sh]
  have Sh1: "1 \<le> \<bar>Sh\<bar>"
  proof -
    have "0 \<le> 0.015 * avgCp * T" using avgCp0 T0 by (intro mult_nonneg_nonneg) simp_all
    then show ?thesis unfolding Sh_def by linarith
  qed
  have e_dt: "ev ((Fin 30 * Fin pi) / Fin 180
                   * nexp (- npow ((Fin avgHp * Fin 180 / Fin pi - Fin 275) / Fin 25) 2)) dt 4"
    unfolding dt_def
    by (rule ev_mono, (rule iavgHp evs pi1 | simp)+)
  note idt = ev_Fin [OF e_dt]
  have Rc_bound: "\<bar>Rc\<bar> \<le> 10 ^ 1"
    unfolding Rc_def by (rule twice_bound [OF ratio7(4) [OF avgCp0] ratio7(3) [OF avgCp0]])
  have e_Rc: "ev (Fin 2 * nsqrt (npow (Fin avgCp) 7 / (npow (Fin avgCp) 7 + npow (Fin 25) 7))) Rc 1"
    apply (rule ev_tight [OF _ Rc_bound])
    unfolding Rc_def
    apply ((rule iavgCp evs ratio7 [OF avgCp0] | simp)+)
    done
  note iRc = ev_Fin [OF e_Rc]
  have e_Rt: "ev (- Fin Rc * nsin (Fin 2 * Fin dt)) Rt 1"
    unfolding Rt_def by (rule ev_mono, (rule iRc idt evs | simp)+)
  note iRt = ev_Fin [OF e_Rt]
  have Rt2: "\<bar>Rt\<bar> \<le> 2"
    unfolding Rt_def Rc_def using rotation_bound [OF avgCp0, of "2 * dt"] by simp
  have rad: "0 \<le> (dLp / Sl) ^ 2 + (dCp / Sc) ^ 2 + (dHp / Sh) ^ 2 + Rt * (dCp / Sc) * (dHp / Sh)"
    by (rule radicand_nonneg [OF Rt2])
  have e_res: "ev (nsqrt (npow (Fin dLp / Fin Sl) 2 + npow (Fin dCp / Fin Sc) 2 + npow (Fin dHp / Fin Sh) 2
                    + Fin Rt * (Fin dCp / Fin Sc) * (Fin dHp / Fin Sh))) res 172"
    unfolding res_def
    by (rule ev_mono, (rule idLp idCp idHp iSl iSc iSh iRt evs rad Sl1 Sc1 Sh1 | simp)+)
  note eqs = e_avgLp e_C1 e_C2 e_avgC e_G e_a1p e_a2p e_C1p e_C2p e_avgCp e_h1p e_h2p e_H1p e_H2p
    e_dLp e_dCp e_dhp0 e_dhp1 e_dhp e_dHp e_avgHp e_T e_Sl e_Sc e_Sh e_dt e_Rc e_Rt e_res
  have "deltaE_js (L1, a1, b1) (L2, a2, b2) = Fin res"
    unfolding deltaE_js_def prod.case by (simp only: Let_Fin eqs [THEN ev_eq])
  moreover have "deltaE (L1, a1, b1) (L2, a2, b2) = res"
    unfolding deltaE_def prod.case Let_def defs ..
  ultimately show ?thesis by simp
qed


text \<open>
  C8, as the claim states it, fails for \<open>deltaE\<close>: for the Lab colour
  \<open>{L: 50, a: 2^170, b: 0}\<close> (about \<open>1.5e51\<close> in \<open>a\<close>, an exact double) the distance
  from the colour to itself is \<open>NaN\<close>, which is neither 0 nor \<open>\<ge> 0\<close>.
\<close>

theorem deltaE_overflow_counterexample:
  "deltaE_js (50, 2 ^ 170, 0) (50, 2 ^ 170, 0) = NaN
   \<and> \<not> Fin 0 \<le> deltaE_js (50, 2 ^ 170, 0) (50, 2 ^ 170, 0)"
proof -
  have "deltaE_js (50, 2 ^ 170, 0) (50, 2 ^ 170, 0) = NaN"
    by (rule deltaE_js_overflow; rule power_increasing; simp)
  then show ?thesis by (simp add: less_eq_num_def)
qed

text \<open>
  C8, amended. \<open>deltaE76\<close> is 0 from a colour to itself and never negative, for all Lab
  colours. For Lab colours whose components are at most \<open>10^36\<close> in absolute value (every
  colour computed from a hex string is far inside), \<open>deltaE\<close> is 0 from a colour to itself
  and returns a number that is not negative: no operation overflows there, the result is
  the value of the real-valued formula, and in it the rotation term \<open>Rt\<close> has absolute value
  at most 2, so the number under the final square root is not negative.
\<close>

theorem deltaE_zero_and_nonneg_in_range:
  "deltaE76 x x = 0 \<and> 0 \<le> deltaE76 x y
   \<and> (in_lab x \<and> in_lab y \<longrightarrow>
        deltaE_js x x = Fin 0 \<and> deltaE_js x y = Fin (deltaE x y) \<and> Fin 0 \<le> deltaE_js x y)"
proof -
  obtain L1 a1 b1 where x: "x = (L1, a1, b1)" by (cases x) auto
  obtain L2 a2 b2 where y: "y = (L2, a2, b2)" by (cases y) auto
  have "deltaE_js x x = Fin 0" if "in_lab x"
    using deltaE_js_in_range [of L1 a1 b1 L1 a1 b1] that by (simp add: x deltaE_self)
  moreover have "deltaE_js x y = Fin (deltaE x y)" if "in_lab x" "in_lab y"
    using deltaE_js_in_range [of L1 a1 b1 L2 a2 b2] that by (simp add: x y)
  ultimately show ?thesis
    using deltaE_nonneg [of x y] by (auto simp: deltaE76_self deltaE76_nonneg)
qed

theorem deltaE_zero_and_nonneg_in_range_witness:
  "in_lab (50, 20, - 30) \<and> in_lab (60, - 10, 5)
   \<and> deltaE_js (50, 20, - 30) (50, 20, - 30) = Fin 0
   \<and> Fin 0 \<le> deltaE_js (50, 20, - 30) (60, - 10, 5)"
proof -
  have r: "in_lab (50, 20, - 30)" "in_lab (60, - 10, 5)" by (simp_all add: in_lab_def)
  from deltaE_zero_and_nonneg_in_range [of "(50, 20, - 30)" "(60, - 10, 5)"] r
  show ?thesis by blast
qed

subsection \<open>Colours from hex strings are in range\<close>

text \<open>
  A channel parsed from two characters is at most 255 in absolute value, so every colour
  that \<open>hexToLab\<close> returns is in range, and the distance by which \<open>nearestFC\<close> ranks a
  palette entry is the number that \<open>deltaE\<close> computes with the special values of doubles.
\<close>

lemma hexDigit_less: "hexDigit c = Some d \<Longrightarrow> d < 16"
  by (auto simp: hexDigit_def Let_def split: if_splits)

lemma foldl_hex_bound:
  assumes "\<forall>c\<in>set ds. hexDigit c \<noteq> None"
  shows "foldl (\<lambda>acc c. 16 * acc + the (hexDigit c)) 0 ds < 16 ^ length ds"
  using assms
proof (induction ds rule: rev_induct)
  case Nil
  show ?case by simp
next
  case (snoc c ds)
  then obtain d where d: "hexDigit c = Some d" by auto
  from hexDigit_less [OF d] snoc show ?case by (simp add: d)
qed

lemma parseInt16_bound:
  assumes "parseInt16 s = Some v" and "length s \<le> 2"
  shows "\<bar>v\<bar> \<le> 255"
proof -
  define s1 where "s1 = dropWhile is_space s"
  define s2 where "s2 = (if take 1 s1 = ''-'' \<or> take 1 s1 = ''+'' then drop 1 s1 else s1)"
  define s3 where "s3 = (if take 2 s2 = ''0x'' \<or> take 2 s2 = ''0X'' then drop 2 s2 else s2)"
  define ds where "ds = takeWhile (\<lambda>c. hexDigit c \<noteq> None) s3"
  have "length s1 \<le> length s" unfolding s1_def by (rule length_dropWhile_le)
  moreover have "length s2 \<le> length s1" by (simp add: s2_def)
  moreover have "length s3 \<le> length s2" by (simp add: s3_def)
  moreover have "length ds \<le> length s3" unfolding ds_def by (rule length_takeWhile_le)
  ultimately have l: "length ds \<le> 2" using assms(2) by linarith
  have "\<forall>c\<in>set ds. hexDigit c \<noteq> None" unfolding ds_def by (auto dest: set_takeWhileD)
  then have "foldl (\<lambda>acc c. 16 * acc + the (hexDigit c)) 0 ds < 16 ^ length ds"
    by (rule foldl_hex_bound)
  also have "(16::nat) ^ length ds \<le> 16 ^ 2" using l by (intro power_increasing) simp_all
  finally have b: "foldl (\<lambda>acc c. 16 * acc + the (hexDigit c)) 0 ds \<le> 255" by simp
  from assms(1) have "v = (if take 1 s1 = ''-'' then - 1 else 1)
      * int (foldl (\<lambda>acc c. 16 * acc + the (hexDigit c)) 0 ds)"
    unfolding parseInt16_def Let_def s1_def [symmetric] s2_def [symmetric] s3_def [symmetric]
      ds_def [symmetric]
    by (simp split: if_splits)
  with b show ?thesis by (simp add: abs_mult split: if_splits)
qed

lemma srgbToLin_bound:
  assumes "\<bar>u\<bar> \<le> 1"
  shows "\<bar>srgbToLin u\<bar> \<le> 1"
proof (cases "u \<le> 0.04045")
  case True
  with assms show ?thesis by (simp add: srgbToLin_def abs_le_iff)
next
  case False
  with assms have "0 \<le> (u + 0.055) / 1.055" "(u + 0.055) / 1.055 \<le> 1" by simp_all
  then have "((u + 0.055) / 1.055) powr 2.4 \<le> 1" by (intro powr_le1) simp_all
  moreover have "0 \<le> ((u + 0.055) / 1.055) powr 2.4" by simp
  ultimately show ?thesis using False by (simp add: srgbToLin_def)
qed

lemma lab_f_bound:
  assumes "\<bar>t\<bar> \<le> 2"
  shows "\<bar>lab_f t\<bar> \<le> 16"
proof (cases "t > 0.008856")
  case True
  then have "0 \<le> root 3 t" by simp
  moreover have "root 3 t \<le> root 3 (2 ^ 3)" using assms by (intro real_root_le_mono) simp_all
  moreover have "root 3 ((2::real) ^ 3) = 2" by (rule real_root_power_cancel) simp_all
  ultimately show ?thesis using True by (simp add: lab_f_def)
next
  case False
  with assms show ?thesis by (simp add: lab_f_def abs_le_iff)
qed

lemma xyz_bound:
  fixes R G B :: real
  assumes "\<bar>R\<bar> \<le> 1" and "\<bar>G\<bar> \<le> 1" and "\<bar>B\<bar> \<le> 1"
    and "0 \<le> p" and "0 \<le> q" and "0 \<le> s" and "p + q + s \<le> 2 * d" and "0 < d"
  shows "\<bar>(R * p + G * q + B * s) / d\<bar> \<le> 2"
proof -
  have "\<bar>R * p\<bar> \<le> p" "\<bar>G * q\<bar> \<le> q" "\<bar>B * s\<bar> \<le> s"
    using assms by (simp_all add: abs_mult mult_left_le_one_le)
  then have "\<bar>R * p + G * q + B * s\<bar> \<le> 2 * d" using assms(7) by linarith
  then show ?thesis using assms(8) by (simp add: pos_divide_le_eq)
qed

lemma hexToLab_in_lab:
  assumes "hexToLab hx = Some l"
  shows "in_lab l"
proof -
  let ?s = "expand3 (remove1 CHR ''#'' hx)"
  from assms obtain cr cg cb where ch: "channels ?s = (Some cr, Some cg, Some cb)"
    by (auto simp: hexToLab_def split: prod.splits option.splits)
  then have "\<bar>cr\<bar> \<le> 255" "\<bar>cg\<bar> \<le> 255" "\<bar>cb\<bar> \<le> 255"
    by (auto simp: channels_def intro!: parseInt16_bound)
  then have u: "\<bar>real_of_int cr / 255\<bar> \<le> 1" "\<bar>real_of_int cg / 255\<bar> \<le> 1" "\<bar>real_of_int cb / 255\<bar> \<le> 1"
    by (simp_all add: abs_le_iff)
  define R where "R = srgbToLin (real_of_int cr / 255)"
  define G where "G = srgbToLin (real_of_int cg / 255)"
  define B where "B = srgbToLin (real_of_int cb / 255)"
  have rgb: "\<bar>R\<bar> \<le> 1" "\<bar>G\<bar> \<le> 1" "\<bar>B\<bar> \<le> 1"
    unfolding R_def G_def B_def by (rule srgbToLin_bound, fact)+
  define fx where "fx = lab_f ((R * 0.4124564 + G * 0.3575761 + B * 0.1804375) / 0.95047)"
  define fy where "fy = lab_f ((R * 0.2126729 + G * 0.7151522 + B * 0.072175) / 1)"
  define fz where "fz = lab_f ((R * 0.0193339 + G * 0.1191920 + B * 0.9503041) / 1.08883)"
  have "\<bar>fx\<bar> \<le> 16"
    unfolding fx_def by (rule lab_f_bound, rule xyz_bound [OF rgb]) simp_all
  moreover have "\<bar>fy\<bar> \<le> 16"
    unfolding fy_def by (rule lab_f_bound, rule xyz_bound [OF rgb]) simp_all
  moreover have "\<bar>fz\<bar> \<le> 16"
    unfolding fz_def by (rule lab_f_bound, rule xyz_bound [OF rgb]) simp_all
  ultimately have f: "\<bar>fx\<bar> \<le> 16" "\<bar>fy\<bar> \<le> 16" "\<bar>fz\<bar> \<le> 16" by simp_all
  from assms ch have l: "l = (116 * fy - 16, 500 * (fx - fy), 200 * (fy - fz))"
    by (simp add: hexToLab_def rgbToXyz01_def Let_def R_def G_def B_def fx_def fy_def fz_def)
  have "(20000::real) \<le> 10 ^ 36" by simp
  with f show ?thesis unfolding l in_lab_def by (simp add: abs_le_iff)
qed

lemma nearestFC_distance:
  assumes "hexToLab h = Some lab" and "hexToLab (hex p) = Some q"
  shows "deltaE_js lab q = Fin (dist2000 lab p)"
proof -
  obtain L1 a1 b1 where x: "lab = (L1, a1, b1)" by (cases lab) auto
  obtain L2 a2 b2 where y: "q = (L2, a2, b2)" by (cases q) auto
  from assms have "in_lab lab" "in_lab q" by (auto intro: hexToLab_in_lab)
  then show ?thesis
    using deltaE_js_in_range [of L1 a1 b1 L2 a2 b2] assms(2) by (simp add: x y dist2000_def)
qed


subsection \<open>Ranking a palette\<close>

lemma length_js_insert: "length (js_insert cmp x ys) = Suc (length ys)"
  by (induction ys) simp_all

lemma length_js_sort: "length (js_sort cmp xs) = length xs"
  by (induction xs) (simp_all add: js_sort_def length_js_insert)

lemma js_insert_keyed:
  "js_insert (\<lambda>x y. sub_js (snd x) (snd y)) (p, Some (d p)) (map (\<lambda>q. (q, Some (d q))) ys)
     = map (\<lambda>q. (q, Some (d q))) (insort_key d p ys)"
  by (induction ys) (simp_all add: cmp_le_def sub_js_def)

lemma js_sort_keyed:
  "js_sort (\<lambda>x y. sub_js (snd x) (snd y)) (map (\<lambda>q. (q, Some (d q))) ps)
     = map (\<lambda>q. (q, Some (d q))) (sort_key d ps)"
proof (induction ps)
  case Nil
  show ?case by (simp add: js_sort_def)
next
  case (Cons p ps)
  then show ?case
    by (simp add: js_sort_def sort_key_def js_insert_keyed)
qed

lemma scored76:
  assumes "\<forall>p\<in>set ps. lab_fc p \<noteq> None"
  shows "map (\<lambda>pl. (fst pl, dist_js deltaE76 (Some srcLab) (snd pl))) (map (\<lambda>p. (p, lab_fc p)) ps)
           = map (\<lambda>p. (p, Some (dist76 srcLab p))) ps"
  using assms by (auto simp: dist_js_def dist76_def)

lemma scored2000:
  assumes "\<forall>p\<in>set ps. hexToLab (hex p) \<noteq> None"
  shows "map (\<lambda>pl. (fst pl, dist_js deltaE (Some lab) (snd pl))) (map (\<lambda>p. (p, hexToLab (hex p))) ps)
           = map (\<lambda>p. (p, Some (dist2000 lab p))) ps"
  using assms by (auto simp: dist_js_def dist2000_def)

lemma matchToFaberCastell_nth:
  assumes "i < length sourceHexes"
    and "hexToLab_fc (sourceHexes ! i) = Some srcLab"
    and "\<forall>p\<in>set (getFCPalette FC_ALL setSize). lab_fc p \<noteq> None"
  shows "snd (matchToFaberCastell FC_ALL sourceHexes setSize topK ! i)
           = take (nat (max 1 (min 5 (case topK of None \<Rightarrow> 1 | Some t \<Rightarrow> t))))
               (ranked (dist76 srcLab) (getFCPalette FC_ALL setSize))"
  using assms(1,2)
  by (simp add: matchToFaberCastell_def Let_def scored76 [OF assms(3)] js_sort_keyed ranked_def slice0_def
      del: map_map)

lemma nearestFC_nth:
  assumes "i < length inputHexes"
    and "hexToLab (inputHexes ! i) = Some lab"
    and "\<forall>p\<in>set lib. hexToLab (hex p) \<noteq> None"
  shows "snd (nearestFC inputHexes lib k ! i) = slice0 (ranked (dist2000 lab) lib) k"
  using assms(1,2)
  by (simp add: nearestFC_def Let_def scored2000 [OF assms(3)] js_sort_keyed ranked_def del: map_map)

lemma ranked_sorted: "sorted (map (\<lambda>e. the (snd e)) (ranked d ps))"
  by (simp add: ranked_def comp_def)

lemma ranked_stable:
  "filter (\<lambda>e. snd e = Some v) (ranked d ps) = map (\<lambda>p. (p, Some (d p))) (filter (\<lambda>p. d p = v) ps)"
  by (simp add: ranked_def filter_map comp_def sort_key_stable)

lemma ranked_length: "length (ranked d ps) = length ps"
  by (simp add: ranked_def)

lemma slice0_prefix: "\<exists>m. slice0 xs k = take m xs"
  by (auto simp: slice0_def)

lemma sorted_slice0_ranked: "sorted (map (\<lambda>e. the (snd e)) (slice0 (ranked d ps) k))"
proof -
  obtain m where "slice0 (ranked d ps) k = take m (ranked d ps)"
    using slice0_prefix by blast
  then show ?thesis
    using sorted_wrt_take [OF ranked_sorted [of d ps], of m] by (simp add: take_map)
qed

lemma hexToLab_fc_parses:
  "channels (drop 1 (normalizeHex hx)) = (Some cr, Some cg, Some cb) \<Longrightarrow> hexToLab_fc hx \<noteq> None"
  by (simp add: hexToLab_fc_def)

lemma hexToLab_parses:
  "channels (expand3 (remove1 CHR ''#'' hx)) = (Some cr, Some cg, Some cb) \<Longrightarrow> hexToLab hx \<noteq> None"
  by (simp add: hexToLab_def Let_def split: prod.splits)

lemma black_fc: "hexToLab_fc ''#000000'' \<noteq> None"
  by (rule hexToLab_fc_parses [of _ 0 0 0]) code_simp

lemma white_fc: "hexToLab_fc ''#FFFFFF'' \<noteq> None"
  by (rule hexToLab_fc_parses [of _ 255 255 255]) code_simp

lemma black3: "hexToLab ''#000'' \<noteq> None"
  by (rule hexToLab_parses [of _ 0 0 0]) code_simp

lemma black6: "hexToLab ''#000000'' \<noteq> None"
  by (rule hexToLab_parses [of _ 0 0 0]) code_simp

lemma white6: "hexToLab ''#FFFFFF'' \<noteq> None"
  by (rule hexToLab_parses [of _ 255 255 255]) code_simp

text \<open>
  C6, as the claim states it, fails for \<open>nearestFC\<close>: it does not clamp \<open>k\<close>. With six
  palette entries and \<open>k = 6\<close> it returns six matches.
\<close>

theorem nearestFC_unclamped_counterexample:
  "length (snd (nearestFC [''#000000'']
       (replicate 6 \<lparr>id_fc = 199, name = ''Black'', hex = ''#000000'', rgb = None, sets = None\<rparr>) 6 ! 0))
     = 6"
  by (simp add: nearestFC_def Let_def slice0_def length_js_sort)

text \<open>
  C6, amended. Where every hex string parses, each matcher ranks the palette by a stable
  sort on the distance to the source colour: the ranking is ascending, and entries at the
  same distance keep their palette order. \<open>matchToFaberCastell\<close> returns the first
  \<open>max(1, min(5, topK))\<close> entries of the ranking by \<open>\<Delta>E76\<close>, at most five;
  \<open>nearestFC\<close> returns \<open>slice(0, k)\<close> of the ranking by \<open>\<Delta>E2000\<close> for the \<open>k\<close> it
  is given, without clamping it.
\<close>

theorem matchers_rank_palette:
  assumes "i < length sourceHexes"
    and "hexToLab_fc (sourceHexes ! i) = Some srcLab"
    and "\<forall>p\<in>set (getFCPalette FC_ALL setSize). lab_fc p \<noteq> None"
    and "j < length inputHexes"
    and "hexToLab (inputHexes ! j) = Some lab"
    and "\<forall>p\<in>set lib. hexToLab (hex p) \<noteq> None"
  shows "snd (matchToFaberCastell FC_ALL sourceHexes setSize topK ! i)
           = take (nat (max 1 (min 5 (case topK of None \<Rightarrow> 1 | Some t \<Rightarrow> t))))
               (ranked (dist76 srcLab) (getFCPalette FC_ALL setSize))
         \<and> length (snd (matchToFaberCastell FC_ALL sourceHexes setSize topK ! i)) \<le> 5
         \<and> sorted (map (\<lambda>e. the (snd e)) (snd (matchToFaberCastell FC_ALL sourceHexes setSize topK ! i)))
         \<and> snd (nearestFC inputHexes lib k ! j) = slice0 (ranked (dist2000 lab) lib) k
         \<and> sorted (map (\<lambda>e. the (snd e)) (snd (nearestFC inputHexes lib k ! j)))
         \<and> sorted (map (\<lambda>e. the (snd e)) (ranked d ps))
         \<and> filter (\<lambda>e. snd e = Some v) (ranked d ps)
             = map (\<lambda>p. (p, Some (d p))) (filter (\<lambda>p. d p = v) ps)"
proof -
  let ?n = "nat (max 1 (min 5 (case topK of None \<Rightarrow> 1 | Some t \<Rightarrow> t)))"
  have m: "snd (matchToFaberCastell FC_ALL sourceHexes setSize topK ! i)
      = take ?n (ranked (dist76 srcLab) (getFCPalette FC_ALL setSize))"
    using assms(1-3) by (rule matchToFaberCastell_nth)
  have n: "snd (nearestFC inputHexes lib k ! j) = slice0 (ranked (dist2000 lab) lib) k"
    using assms(4-6) by (rule nearestFC_nth)
  have "?n \<le> 5" by simp
  then have l: "length (take ?n (ranked (dist76 srcLab) (getFCPalette FC_ALL setSize))) \<le> 5"
    by simp
  have s: "sorted (map (\<lambda>e. the (snd e)) (take ?n (ranked (dist76 srcLab) (getFCPalette FC_ALL setSize))))"
    using sorted_wrt_take [OF ranked_sorted [of "dist76 srcLab" "getFCPalette FC_ALL setSize"], of ?n]
    by (simp add: take_map)
  show ?thesis
    unfolding m n using l s
    by (simp only: sorted_slice0_ranked ranked_sorted ranked_stable simp_thms)
qed

theorem matchers_rank_palette_witness:
  "hexToLab_fc ''#000000'' \<noteq> None \<and> hexToLab ''#000'' \<noteq> None
   \<and> snd (matchToFaberCastell [fc_black, fc_white] [''#000000''] None (Some 1) ! 0) = [(fc_black, Some 0)]
   \<and> snd (nearestFC [''#000''] [fc_black, fc_white] 2 ! 0)
       = slice0 (ranked (dist2000 (the (hexToLab ''#000''))) [fc_black, fc_white]) 2"
proof -
  let ?src = "the (hexToLab_fc ''#000000'')"
  let ?lab = "the (hexToLab ''#000'')"
  have h1: "(0::nat) < length [''#000000'']" by simp
  have h2: "hexToLab_fc ([''#000000''] ! 0) = Some ?src" using black_fc by simp
  have h3: "\<forall>p\<in>set (getFCPalette [fc_black, fc_white] None). lab_fc p \<noteq> None"
    using black_fc white_fc by (simp add: getFCPalette_def lab_fc_def fc_black_def fc_white_def)
  have h4: "(0::nat) < length [''#000'']" by simp
  have h5: "hexToLab ([''#000''] ! 0) = Some ?lab" using black3 by simp
  have h6: "\<forall>p\<in>set [fc_black, fc_white]. hexToLab (hex p) \<noteq> None"
    using black6 white6 by (simp add: fc_black_def fc_white_def)
  have d0: "dist76 ?src fc_black = 0"
    using black_fc by (simp add: dist76_def lab_fc_def fc_black_def deltaE76_self)
  have d1: "0 \<le> dist76 ?src fc_white" by (simp add: dist76_def deltaE76_nonneg)
  have r: "take (nat (max 1 (min 5 (case Some 1 of None \<Rightarrow> 1 | Some t \<Rightarrow> t))))
             (ranked (dist76 ?src) (getFCPalette [fc_black, fc_white] None)) = [(fc_black, Some 0)]"
    using d0 d1 by (simp add: ranked_def getFCPalette_def)
  from matchers_rank_palette [OF h1 h2 h3 h4 h5 h6, of "Some 1" 2 "dist76 ?src" "[]" 0] r black_fc black3
  show ?thesis by simp
qed

end
